theory Spec2Isabelle
  imports Complex_Main
begin

section \<open>Python lists and exceptions\<close>

text \<open>
  The game engine of \<^verbatim>\<open>tetris.py\<close> works on Python lists of lists and on unbounded
  integers. Indexing a list raises \<^verbatim>\<open>IndexError\<close> outside $[-n, n)$ and counts a
  negative index from the end; the remainder by zero raises \<^verbatim>\<open>ZeroDivisionError\<close>;
  the conversion of an integer too large for a float raises \<^verbatim>\<open>OverflowError\<close>.
  They are values of the model: every operation that can raise returns \<open>error + 'a\<close>.
\<close>

datatype error = IndexError | ZeroDivisionError | OverflowError

definition getitem :: "'a list \<Rightarrow> int \<Rightarrow> error + 'a" where
  "getitem xs i =
     (if - int (length xs) \<le> i \<and> i < int (length xs)
      then Inr (xs ! nat (if i < 0 then i + int (length xs) else i))
      else Inl IndexError)"

definition setitem :: "'a list \<Rightarrow> int \<Rightarrow> 'a \<Rightarrow> error + 'a list" where
  "setitem xs i v =
     (if - int (length xs) \<le> i \<and> i < int (length xs)
      then Inr (xs[nat (if i < 0 then i + int (length xs) else i) := v])
      else Inl IndexError)"

definition py_mod :: "int \<Rightarrow> int \<Rightarrow> error + int" where
  "py_mod a b = (if b = 0 then Inl ZeroDivisionError else Inr (a mod b))"

section \<open>Python floats\<close>

text \<open>
  A Python float is an IEEE 754 binary64 number: a finite value, an infinity or a NaN.
  The finite values are the real numbers \<open>m * 2 ^ e\<close> with \<open>\<bar>m\<bar> < 2 ^ 53\<close> and
  \<open>- 1074 \<le> e \<le> 971\<close>; the two zeros compare equal and behave alike under the
  operations used here, and are one value. Every arithmetic result is the exact result
  rounded to the nearest such value, ties going to the even significand, and a result
  that rounds to \<open>2 ^ 1024\<close> or beyond is an infinity.
\<close>

datatype double = Finite real | PosInf | NegInf | NaN

text \<open>
  The binary exponent of a positive value: \<open>exponent_up\<close> counts up from 0 for a
  value of at least 1 and below \<open>2 ^ 1024\<close>, \<open>exponent_down\<close> counts the negated
  exponent up from 1 for a value below 1 and stops at 1022, the exponent of all
  subnormal numbers.
\<close>

fun exponent_up :: "nat \<Rightarrow> real \<Rightarrow> nat \<Rightarrow> nat" where
  "exponent_up 0 v e = e"
| "exponent_up (Suc n) v e = (if 2 ^ (e + 1) \<le> v then exponent_up n v (e + 1) else e)"

fun exponent_down :: "nat \<Rightarrow> real \<Rightarrow> nat \<Rightarrow> nat" where
  "exponent_down 0 v k = k"
| "exponent_down (Suc n) v k = (if v * 2 ^ k < 1 then exponent_down n v (k + 1) else k)"

definition round_even :: "real \<Rightarrow> int" where
  "round_even v =
     (if v - of_int \<lfloor>v\<rfloor> < 1 / 2 then \<lfloor>v\<rfloor>
      else if 1 / 2 < v - of_int \<lfloor>v\<rfloor> then \<lfloor>v\<rfloor> + 1
      else if even \<lfloor>v\<rfloor> then \<lfloor>v\<rfloor>
      else \<lfloor>v\<rfloor> + 1)"

text \<open>Rounding to 53 significant bits, the exponent not bounded above.\<close>

definition round_at :: "real \<Rightarrow> real" where
  "round_at v =
     (if 1 \<le> \<bar>v\<bar> then
        (if 52 \<le> exponent_up 1023 \<bar>v\<bar> 0
         then of_int (round_even (v / 2 ^ (exponent_up 1023 \<bar>v\<bar> 0 - 52)))
                * 2 ^ (exponent_up 1023 \<bar>v\<bar> 0 - 52)
         else of_int (round_even (v * 2 ^ (52 - exponent_up 1023 \<bar>v\<bar> 0)))
                / 2 ^ (52 - exponent_up 1023 \<bar>v\<bar> 0))
      else of_int (round_even (v * 2 ^ (exponent_down 1021 \<bar>v\<bar> 1 + 52)))
             / 2 ^ (exponent_down 1021 \<bar>v\<bar> 1 + 52))"

definition round_double :: "real \<Rightarrow> double" where
  "round_double v =
     (if v = 0 then Finite 0
      else if 2 ^ 1024 \<le> \<bar>v\<bar> \<or> 2 ^ 1024 \<le> \<bar>round_at v\<bar>
        then (if 0 < v then PosInf else NegInf)
      else Finite (round_at v))"

text \<open>
  A float literal is the double nearest to the decimal it spells.
  \<^verbatim>\<open>int * float\<close> converts the integer first, which raises \<^verbatim>\<open>OverflowError\<close>
  when the integer is too large for a float.
\<close>

definition float_literal :: "real \<Rightarrow> double" where
  "float_literal v = round_double v"

definition float_of_int :: "int \<Rightarrow> error + double" where
  "float_of_int n =
     (case round_double (of_int n) of
        Finite v \<Rightarrow> Inr (Finite v)
      | PosInf \<Rightarrow> Inl OverflowError
      | NegInf \<Rightarrow> Inl OverflowError
      | NaN \<Rightarrow> Inl OverflowError)"

fun fmul :: "double \<Rightarrow> double \<Rightarrow> double" where
  "fmul (Finite a) (Finite b) = round_double (a * b)"
| "fmul NaN b = NaN"
| "fmul a NaN = NaN"
| "fmul PosInf (Finite b) = (if b = 0 then NaN else if 0 < b then PosInf else NegInf)"
| "fmul NegInf (Finite b) = (if b = 0 then NaN else if 0 < b then NegInf else PosInf)"
| "fmul (Finite a) PosInf = (if a = 0 then NaN else if 0 < a then PosInf else NegInf)"
| "fmul (Finite a) NegInf = (if a = 0 then NaN else if 0 < a then NegInf else PosInf)"
| "fmul PosInf PosInf = PosInf"
| "fmul PosInf NegInf = NegInf"
| "fmul NegInf PosInf = NegInf"
| "fmul NegInf NegInf = PosInf"

fun fsub :: "double \<Rightarrow> double \<Rightarrow> double" where
  "fsub (Finite a) (Finite b) = round_double (a - b)"
| "fsub NaN b = NaN"
| "fsub a NaN = NaN"
| "fsub PosInf PosInf = NaN"
| "fsub NegInf NegInf = NaN"
| "fsub PosInf b = PosInf"
| "fsub NegInf b = NegInf"
| "fsub (Finite a) PosInf = NegInf"
| "fsub (Finite a) NegInf = PosInf"

text \<open>\<open>flt a b\<close> is \<^verbatim>\<open>a < b\<close> and \<open>fge a b\<close> is \<^verbatim>\<open>a >= b\<close>; both are False on a NaN.\<close>

fun flt :: "double \<Rightarrow> double \<Rightarrow> bool" where
  "flt (Finite a) (Finite b) = (a < b)"
| "flt NaN b = False"
| "flt a NaN = False"
| "flt PosInf b = False"
| "flt a PosInf = True"
| "flt NegInf NegInf = False"
| "flt NegInf b = True"
| "flt (Finite a) NegInf = False"

fun fge :: "double \<Rightarrow> double \<Rightarrow> bool" where
  "fge (Finite a) (Finite b) = (b \<le> a)"
| "fge NaN b = False"
| "fge a NaN = False"
| "fge PosInf b = True"
| "fge a NegInf = True"
| "fge NegInf b = False"
| "fge (Finite a) PosInf = False"

text \<open>\<^verbatim>\<open>max(a, b)\<close> returns \<^verbatim>\<open>b\<close> when \<^verbatim>\<open>b > a\<close> and \<^verbatim>\<open>a\<close> otherwise.\<close>

definition py_max :: "double \<Rightarrow> double \<Rightarrow> double" where
  "py_max a b = (if flt a b then b else a)"

section \<open>Tetromino\<close>

datatype ColorTheme = GREEN | AMBER

text \<open>
  The seven keys of \<^verbatim>\<open>Tetromino.SHAPES\<close>, \<^verbatim>\<open>'I'\<close>, \<^verbatim>\<open>'O'\<close>, \<^verbatim>\<open>'T'\<close>,
  \<^verbatim>\<open>'S'\<close>, \<^verbatim>\<open>'Z'\<close>, \<^verbatim>\<open>'J'\<close>, \<^verbatim>\<open>'L'\<close>, in the dictionary's order. They are the
  values \<^verbatim>\<open>shape_type\<close> takes in the program (\<^verbatim>\<open>random.choice\<close> over the keys); any
  other string makes \<^verbatim>\<open>Tetromino.__init__\<close> raise \<^verbatim>\<open>KeyError\<close> and builds no piece. The
  cells of a frame are characters, \<^verbatim>\<open>'.'\<close> for an empty one.
\<close>

datatype kind = KI | KO | KT | KS | KZ | KJ | KL

fun SHAPES :: "kind \<Rightarrow> string list list" where
  "SHAPES KI =
     [[''....'', ''IIII'', ''....'', ''....''],
      [''..I.'', ''..I.'', ''..I.'', ''..I.''],
      [''....'', ''....'', ''IIII'', ''....''],
      [''.I..'', ''.I..'', ''.I..'', ''.I..'']]"
| "SHAPES KO =
     [[''OO'', ''OO'']]"
| "SHAPES KT =
     [[''.T.'', ''TTT'', ''...''],
      [''.T.'', ''.TT'', ''.T.''],
      [''...'', ''TTT'', ''.T.''],
      [''.T.'', ''TT.'', ''.T.'']]"
| "SHAPES KS =
     [[''.SS'', ''SS.'', ''...''],
      [''.S.'', ''.SS'', ''..S'']]"
| "SHAPES KZ =
     [[''ZZ.'', ''.ZZ'', ''...''],
      [''..Z'', ''.ZZ'', ''.Z.'']]"
| "SHAPES KJ =
     [[''J..'', ''JJJ'', ''...''],
      [''.JJ'', ''.J.'', ''.J.''],
      [''...'', ''JJJ'', ''..J''],
      [''.J.'', ''.J.'', ''JJ.'']]"
| "SHAPES KL =
     [[''..L'', ''LLL'', ''...''],
      [''.L.'', ''.L.'', ''.LL''],
      [''...'', ''LLL'', ''L..''],
      [''LL.'', ''.L.'', ''.L.'']]"

text \<open>
  A piece. The attribute \<^verbatim>\<open>shape\<close> is assigned once, by \<^verbatim>\<open>__init__\<close>, to
  \<^verbatim>\<open>SHAPES[shape_type]\<close> and is never assigned again, so it is the function
  \<open>shape\<close> of the piece's type rather than a field of its own.
\<close>

record tetromino =
  type :: kind
  rotation :: int
  x :: int
  y :: int

definition shape :: "tetromino \<Rightarrow> string list list" where
  "shape p = SHAPES (type p)"

definition Tetromino :: "kind \<Rightarrow> tetromino" where
  "Tetromino shape_type = \<lparr>type = shape_type, rotation = 0, x = 4, y = 0\<rparr>"

definition get_current_shape :: "tetromino \<Rightarrow> error + string list" where
  "get_current_shape p =
     (case py_mod (rotation p) (int (length (shape p))) of
        Inl e \<Rightarrow> Inl e
      | Inr i \<Rightarrow> getitem (shape p) i)"

text \<open>
  \<^verbatim>\<open>rotate\<close> builds a new piece and leaves \<^verbatim>\<open>self\<close> alone. Its divisor is the
  frame count of a catalogue entry, which is never zero (\<open>SHAPES_nonempty\<close> below).
\<close>

definition rotate :: "tetromino \<Rightarrow> tetromino" where
  "rotate p =
     (Tetromino (type p))
       \<lparr>rotation := (rotation p + 1) mod int (length (shape p)), x := x p, y := y p\<rparr>"

section \<open>Board\<close>

record board =
  width :: int
  height :: int
  grid :: "char list list"

definition Board :: "int \<Rightarrow> int \<Rightarrow> board" where
  "Board w h =
     \<lparr>width = w, height = h, grid = replicate (nat h) (replicate (nat w) CHR ''.'')\<rparr>"

text \<open>
  The condition of the \<^verbatim>\<open>if\<close> inside \<^verbatim>\<open>is_valid_position\<close>, with Python's
  left-to-right \<^verbatim>\<open>or\<close> and \<^verbatim>\<open>and\<close>: the grid is read only when the three bound
  tests have failed and the row is not negative.
\<close>

definition blocked :: "board \<Rightarrow> int \<Rightarrow> int \<Rightarrow> error + bool" where
  "blocked b new_x new_y =
     (if new_x < 0 \<or> new_x \<ge> width b \<or> new_y \<ge> height b then Inr True
      else if new_y \<ge> 0 then
        (case getitem (grid b) new_y of
           Inl e \<Rightarrow> Inl e
         | Inr row \<Rightarrow>
             (case getitem row new_x of
                Inl e \<Rightarrow> Inl e
              | Inr c \<Rightarrow> Inr (c \<noteq> CHR ''.'')))
      else Inr False)"

text \<open>
  The two loops of \<^verbatim>\<open>is_valid_position\<close>. \<open>Inr False\<close> is the early
  \<^verbatim>\<open>return False\<close>; \<open>Inr True\<close> means the loop ran to its end.
\<close>

fun is_valid_cols ::
  "board \<Rightarrow> tetromino \<Rightarrow> int \<Rightarrow> int \<Rightarrow> nat \<Rightarrow> nat \<Rightarrow> string \<Rightarrow> error + bool" where
  "is_valid_cols b p dx dy row_idx col_idx [] = Inr True"
| "is_valid_cols b p dx dy row_idx col_idx (cell # cells) =
     (if cell \<noteq> CHR ''.'' then
        (case blocked b (x p + int col_idx + dx) (y p + int row_idx + dy) of
           Inl e \<Rightarrow> Inl e
         | Inr hit \<Rightarrow>
             if hit then Inr False
             else is_valid_cols b p dx dy row_idx (Suc col_idx) cells)
      else is_valid_cols b p dx dy row_idx (Suc col_idx) cells)"

fun is_valid_rows ::
  "board \<Rightarrow> tetromino \<Rightarrow> int \<Rightarrow> int \<Rightarrow> nat \<Rightarrow> string list \<Rightarrow> error + bool" where
  "is_valid_rows b p dx dy row_idx [] = Inr True"
| "is_valid_rows b p dx dy row_idx (row # rows) =
     (case is_valid_cols b p dx dy row_idx 0 row of
        Inl e \<Rightarrow> Inl e
      | Inr ok \<Rightarrow>
          if ok then is_valid_rows b p dx dy (Suc row_idx) rows
          else Inr False)"

definition is_valid_position :: "board \<Rightarrow> tetromino \<Rightarrow> int \<Rightarrow> int \<Rightarrow> error + bool" where
  "is_valid_position b p dx dy =
     (case get_current_shape p of
        Inl e \<Rightarrow> Inl e
      | Inr frame \<Rightarrow> is_valid_rows b p dx dy 0 frame)"

text \<open>
  \<^verbatim>\<open>place_piece\<close>: \<^verbatim>\<open>self.grid[y][x] = cell\<close> reads row \<^verbatim>\<open>y\<close> of the grid and
  writes its cell \<^verbatim>\<open>x\<close> in place. The rows of a grid are distinct list objects
  (\<^verbatim>\<open>Board.__init__\<close> and \<^verbatim>\<open>clear_lines\<close> build every new row afresh and store no
  row twice), so the write changes that one row.
\<close>

fun place_cols ::
  "char list list \<Rightarrow> tetromino \<Rightarrow> nat \<Rightarrow> nat \<Rightarrow> string \<Rightarrow> error + char list list" where
  "place_cols g p row_idx col_idx [] = Inr g"
| "place_cols g p row_idx col_idx (cell # cells) =
     (if cell \<noteq> CHR ''.'' then
        (let cx = x p + int col_idx; cy = y p + int row_idx in
         if cy \<ge> 0 then
           (case getitem g cy of
              Inl e \<Rightarrow> Inl e
            | Inr row \<Rightarrow>
                (case setitem row cx cell of
                   Inl e \<Rightarrow> Inl e
                 | Inr row' \<Rightarrow> place_cols (g[nat cy := row']) p row_idx (Suc col_idx) cells))
         else place_cols g p row_idx (Suc col_idx) cells)
      else place_cols g p row_idx (Suc col_idx) cells)"

fun place_rows ::
  "char list list \<Rightarrow> tetromino \<Rightarrow> nat \<Rightarrow> string list \<Rightarrow> error + char list list" where
  "place_rows g p row_idx [] = Inr g"
| "place_rows g p row_idx (row # rows) =
     (case place_cols g p row_idx 0 row of
        Inl e \<Rightarrow> Inl e
      | Inr g' \<Rightarrow> place_rows g' p (Suc row_idx) rows)"

definition place_piece :: "board \<Rightarrow> tetromino \<Rightarrow> error + board" where
  "place_piece b p =
     (case get_current_shape p of
        Inl e \<Rightarrow> Inl e
      | Inr frame \<Rightarrow>
          (case place_rows (grid b) p 0 frame of
             Inl e \<Rightarrow> Inl e
           | Inr g \<Rightarrow> Inr (b\<lparr>grid := g\<rparr>)))"

text \<open>
  \<^verbatim>\<open>clear_lines\<close>: the \<^verbatim>\<open>for\<close> loop keeps the rows that hold a \<^verbatim>\<open>'.'\<close> and counts
  the others; the \<^verbatim>\<open>while\<close> loop inserts empty rows at index 0 until the grid has
  \<^verbatim>\<open>self.height\<close> rows.
\<close>

fun clear_lines_scan ::
  "char list list \<Rightarrow> char list list \<Rightarrow> int \<Rightarrow> char list list \<times> int" where
  "clear_lines_scan [] new_grid lines_cleared = (new_grid, lines_cleared)"
| "clear_lines_scan (row # rows) new_grid lines_cleared =
     (if CHR ''.'' \<in> set row then clear_lines_scan rows (new_grid @ [row]) lines_cleared
      else clear_lines_scan rows new_grid (lines_cleared + 1))"

function clear_lines_fill :: "int \<Rightarrow> int \<Rightarrow> char list list \<Rightarrow> char list list" where
  "clear_lines_fill w h new_grid =
     (if int (length new_grid) < h
      then clear_lines_fill w h (replicate (nat w) CHR ''.'' # new_grid)
      else new_grid)"
  by pat_completeness auto

termination
  by (relation "measure (\<lambda>(w, h, new_grid). nat (h - int (length new_grid)))") auto

declare clear_lines_fill.simps [simp del]

definition clear_lines :: "board \<Rightarrow> board \<times> int" where
  "clear_lines b =
     (case clear_lines_scan (grid b) [] 0 of
        (new_grid, lines_cleared) \<Rightarrow>
          (b\<lparr>grid := clear_lines_fill (width b) (height b) new_grid\<rparr>, lines_cleared))"

definition is_game_over :: "board \<Rightarrow> error + bool" where
  "is_game_over b =
     (case getitem (grid b) 0 of
        Inl e \<Rightarrow> Inl e
      | Inr row \<Rightarrow> Inr (\<exists>cell \<in> set row. cell \<noteq> CHR ''.''))"

section \<open>TetrisGame\<close>

definition LINE_CLEAR_SCORES :: "int list" where
  "LINE_CLEAR_SCORES = [0, 40, 100, 300, 1200]"

definition HARD_DROP_POINTS :: int where
  "HARD_DROP_POINTS = 2"

definition SOFT_DROP_POINTS :: int where
  "SOFT_DROP_POINTS = 1"

text \<open>
  The state of a \<^verbatim>\<open>TetrisGame\<close>. The integers are Python's unbounded ones, the two
  times are Python floats. \<open>calculate_score\<close> is \<^verbatim>\<open>_calculate_score\<close>.
\<close>

record tetris_game =
  board :: board
  current_piece :: "tetromino option"
  next_piece :: "tetromino option"
  score :: int
  level :: int
  lines_cleared :: int
  paused :: bool
  game_over :: bool
  theme :: ColorTheme
  last_drop_time :: double
  drop_interval :: double

text \<open>
  The module's random generator is the sequence of the kinds it will draw: each
  \<^verbatim>\<open>random.choice(list(Tetromino.SHAPES.keys()))\<close> takes the head and leaves the rest.
  The clock \<^verbatim>\<open>time.time()\<close> is an argument of the operations that read it.
\<close>

type_synonym rng = "nat \<Rightarrow> kind"

definition random_choice :: "rng \<Rightarrow> kind \<times> rng" where
  "random_choice r = (r 0, \<lambda>n. r (Suc n))"

definition calculate_score :: "tetris_game \<Rightarrow> int \<Rightarrow> int" where
  "calculate_score g n =
     (if n < 0 \<or> n \<ge> int (length LINE_CLEAR_SCORES) then 0
      else LINE_CLEAR_SCORES ! nat n * (level g + 1))"

definition spawn_new_piece :: "tetris_game \<Rightarrow> rng \<Rightarrow> error + tetris_game \<times> rng" where
  "spawn_new_piece g r =
     (case (case next_piece g of
              None \<Rightarrow> (case random_choice r of (shape_type, r') \<Rightarrow> (Tetromino shape_type, r'))
            | Some q \<Rightarrow> (q, r)) of
        (q, r1) \<Rightarrow>
          (case random_choice r1 of
             (shape_type, r2) \<Rightarrow>
               (let cur = q\<lparr>x := 4, y := 0\<rparr>;
                    g1 = g\<lparr>current_piece := Some cur, next_piece := Some (Tetromino shape_type)\<rparr>
                in case is_valid_position (board g1) cur 0 0 of
                     Inl e \<Rightarrow> Inl e
                   | Inr ok \<Rightarrow> Inr (if \<not> ok then g1\<lparr>game_over := True\<rparr> else g1, r2))))"

definition move_piece :: "tetris_game \<Rightarrow> int \<Rightarrow> int \<Rightarrow> error + tetris_game \<times> bool" where
  "move_piece g dx dy =
     (case current_piece g of
        None \<Rightarrow> Inr (g, False)
      | Some p \<Rightarrow>
          (case is_valid_position (board g) p dx dy of
             Inl e \<Rightarrow> Inl e
           | Inr ok \<Rightarrow>
               if ok then Inr (g\<lparr>current_piece := Some (p\<lparr>x := x p + dx, y := y p + dy\<rparr>)\<rparr>, True)
               else Inr (g, False)))"

definition rotate_piece :: "tetris_game \<Rightarrow> error + tetris_game \<times> bool" where
  "rotate_piece g =
     (case current_piece g of
        None \<Rightarrow> Inr (g, False)
      | Some p \<Rightarrow>
          (let rotated = rotate p
           in case is_valid_position (board g) rotated 0 0 of
                Inl e \<Rightarrow> Inl e
              | Inr ok \<Rightarrow>
                  if ok then Inr (g\<lparr>current_piece := Some rotated\<rparr>, True)
                  else Inr (g, False)))"

definition lock_piece :: "tetris_game \<Rightarrow> rng \<Rightarrow> error + tetris_game \<times> rng" where
  "lock_piece g r =
     (case current_piece g of
        None \<Rightarrow> Inr (g, r)
      | Some p \<Rightarrow>
          (case place_piece (board g) p of
             Inl e \<Rightarrow> Inl e
           | Inr b1 \<Rightarrow>
               (case clear_lines b1 of
                  (b2, lines) \<Rightarrow>
                    (let g1 = g\<lparr>board := b2\<rparr>
                     in if lines > 0 then
                          (let g3 = g1\<lparr>lines_cleared := lines_cleared g1 + lines\<rparr>;
                               g4 = g3\<lparr>score := score g3 + calculate_score g3 lines\<rparr>;
                               g5 = g4\<lparr>level := min 20 (lines_cleared g4 div 10 + 1)\<rparr>
                           in case float_of_int (level g5 - 1) of
                                Inl e \<Rightarrow> Inl e
                              | Inr k \<Rightarrow>
                                  spawn_new_piece
                                    (g5\<lparr>drop_interval :=
                                          py_max (float_literal 0.05)
                                            (fsub (float_literal 1.0)
                                               (fmul k (float_literal 0.05)))\<rparr>) r)
                        else spawn_new_piece g1 r))))"

text \<open>
  The loop of \<^verbatim>\<open>hard_drop\<close>: \<^verbatim>\<open>while self.move_piece(0, 1): self.score += 2\<close>.
  It ends because a move is accepted only while every occupied cell of the frame stays
  above the bottom of the board, and every frame has an occupied cell; the termination
  proof comes with the facts about frames.
\<close>

function hard_drop_loop :: "tetris_game \<Rightarrow> error + tetris_game" where
  "hard_drop_loop g =
     (case move_piece g 0 1 of
        Inl e \<Rightarrow> Inl e
      | Inr (g', moved) \<Rightarrow>
          if moved then hard_drop_loop (g'\<lparr>score := score g' + HARD_DROP_POINTS\<rparr>)
          else Inr g')"
  by pat_completeness auto

definition hard_drop :: "tetris_game \<Rightarrow> rng \<Rightarrow> error + tetris_game \<times> rng" where
  "hard_drop g r =
     (case current_piece g of
        None \<Rightarrow> Inr (g, r)
      | Some _ \<Rightarrow>
          (case hard_drop_loop g of
             Inl e \<Rightarrow> Inl e
           | Inr g' \<Rightarrow> lock_piece g' r))"

definition update :: "tetris_game \<Rightarrow> double \<Rightarrow> rng \<Rightarrow> error + tetris_game \<times> rng" where
  "update g current_time r =
     (if paused g \<or> game_over g then Inr (g, r)
      else if fge (fsub current_time (last_drop_time g)) (drop_interval g) then
        (case move_piece g 0 1 of
           Inl e \<Rightarrow> Inl e
         | Inr (g1, moved) \<Rightarrow>
             (case (if \<not> moved then lock_piece g1 r else Inr (g1, r)) of
                Inl e \<Rightarrow> Inl e
              | Inr (g2, r2) \<Rightarrow> Inr (g2\<lparr>last_drop_time := current_time\<rparr>, r2)))
      else Inr (g, r))"

definition toggle_pause :: "tetris_game \<Rightarrow> tetris_game" where
  "toggle_pause g = g\<lparr>paused := \<not> paused g\<rparr>"

definition toggle_theme :: "tetris_game \<Rightarrow> tetris_game" where
  "toggle_theme g = g\<lparr>theme := (if theme g = GREEN then AMBER else GREEN)\<rparr>"

text \<open>
  \<^verbatim>\<open>__init__\<close> and \<^verbatim>\<open>restart\<close> both end with two calls of
  \<^verbatim>\<open>spawn_new_piece\<close>; \<^verbatim>\<open>restart\<close> keeps the theme.
\<close>

definition spawn_twice :: "tetris_game \<Rightarrow> rng \<Rightarrow> error + tetris_game \<times> rng" where
  "spawn_twice g r =
     (case spawn_new_piece g r of
        Inl e \<Rightarrow> Inl e
      | Inr (g1, r1) \<Rightarrow> spawn_new_piece g1 r1)"

definition TetrisGame :: "double \<Rightarrow> rng \<Rightarrow> error + tetris_game \<times> rng" where
  "TetrisGame now r =
     spawn_twice
       \<lparr>board = Board 10 20, current_piece = None, next_piece = None, score = 0, level = 1,
        lines_cleared = 0, paused = False, game_over = False, theme = GREEN,
        last_drop_time = now, drop_interval = float_literal 1.0\<rparr> r"

definition restart :: "tetris_game \<Rightarrow> double \<Rightarrow> rng \<Rightarrow> error + tetris_game \<times> rng" where
  "restart g now r =
     spawn_twice
       (g\<lparr>board := Board 10 20, current_piece := None, next_piece := None, score := 0,
          level := 1, lines_cleared := 0, paused := False, game_over := False,
          last_drop_time := now, drop_interval := float_literal 1.0\<rparr>) r"

section \<open>The input layer\<close>

text \<open>
  \<^verbatim>\<open>TetrisUI.handle_input\<close>, as far as it acts on the game: the key is the integer
  \<^verbatim>\<open>getch\<close> returned, \<open>ord\<close> is Python's \<^verbatim>\<open>ord\<close> on a one-character string, and
  the four arrow keys have the values of the curses library. The result holds the
  returned flag (False to quit), the game and the generator. A \<^verbatim>\<open>getch\<close> that raises
  makes the source return True at once and is no key here.
\<close>

definition ord :: "char \<Rightarrow> int" where
  "ord c = of_char c"

definition KEY_DOWN :: int where "KEY_DOWN = 258"

definition KEY_UP :: int where "KEY_UP = 259"

definition KEY_LEFT :: int where "KEY_LEFT = 260"

definition KEY_RIGHT :: int where "KEY_RIGHT = 261"

definition handle_input ::
  "tetris_game \<Rightarrow> int \<Rightarrow> double \<Rightarrow> rng \<Rightarrow> error + bool \<times> tetris_game \<times> rng" where
  "handle_input g key now r =
     (if key = ord CHR ''q'' \<or> key = ord CHR ''Q'' then Inr (False, g, r)
      else if key = ord CHR ''p'' \<or> key = ord CHR ''P'' then Inr (True, toggle_pause g, r)
      else if key = ord CHR ''r'' \<or> key = ord CHR ''R'' then
        (case restart g now r of
           Inl e \<Rightarrow> Inl e
         | Inr (g', r') \<Rightarrow> Inr (True, g', r'))
      else if key = ord CHR ''t'' \<or> key = ord CHR ''T'' then Inr (True, toggle_theme g, r)
      else if \<not> paused g \<and> \<not> game_over g then
        (if key = KEY_LEFT then
           (case move_piece g (- 1) 0 of
              Inl e \<Rightarrow> Inl e
            | Inr (g', moved) \<Rightarrow> Inr (True, g', r))
         else if key = KEY_RIGHT then
           (case move_piece g 1 0 of
              Inl e \<Rightarrow> Inl e
            | Inr (g', moved) \<Rightarrow> Inr (True, g', r))
         else if key = KEY_DOWN then
           (case move_piece g 0 1 of
              Inl e \<Rightarrow> Inl e
            | Inr (g', moved) \<Rightarrow>
                Inr (True, if moved then g'\<lparr>score := score g' + 1\<rparr> else g', r))
         else if key = KEY_UP then
           (case rotate_piece g of
              Inl e \<Rightarrow> Inl e
            | Inr (g', rotated) \<Rightarrow> Inr (True, g', r))
         else if key = ord CHR '' '' then
           (case hard_drop g r of
              Inl e \<Rightarrow> Inl e
            | Inr (g', r') \<Rightarrow> Inr (True, g', r'))
         else Inr (True, g, r))
      else Inr (True, g, r))"

section \<open>Well-formed boards and reachable games\<close>

text \<open>
  A board is well formed when its grid has \<open>height\<close> rows of \<open>width\<close> cells, as
  \<^verbatim>\<open>Board.__init__\<close> builds it.
\<close>

definition board_wf :: "board \<Rightarrow> bool" where
  "board_wf b =
     (int (length (grid b)) = height b \<and> (\<forall>row \<in> set (grid b). int (length row) = width b))"

text \<open>
  The public operations of the engine, and the input layer on top of them. The games
  reachable are those a constructor call returns and those a public operation returns
  from a reachable game.
\<close>

datatype operation =
    Spawn
  | Move int int
  | Rotate
  | HardDrop
  | Lock
  | Update double
  | TogglePause
  | ToggleTheme
  | Restart double
  | HandleInput int double

fun perform :: "operation \<Rightarrow> tetris_game \<Rightarrow> rng \<Rightarrow> error + tetris_game \<times> rng" where
  "perform Spawn g r = spawn_new_piece g r"
| "perform (Move dx dy) g r =
     (case move_piece g dx dy of Inl e \<Rightarrow> Inl e | Inr (g', moved) \<Rightarrow> Inr (g', r))"
| "perform Rotate g r =
     (case rotate_piece g of Inl e \<Rightarrow> Inl e | Inr (g', rotated) \<Rightarrow> Inr (g', r))"
| "perform HardDrop g r = hard_drop g r"
| "perform Lock g r = lock_piece g r"
| "perform (Update current_time) g r = update g current_time r"
| "perform TogglePause g r = Inr (toggle_pause g, r)"
| "perform ToggleTheme g r = Inr (toggle_theme g, r)"
| "perform (Restart now) g r = restart g now r"
| "perform (HandleInput key now) g r =
     (case handle_input g key now r of
        Inl e \<Rightarrow> Inl e
      | Inr (continue, g', r') \<Rightarrow> Inr (g', r'))"

inductive reachable :: "tetris_game \<Rightarrow> bool" where
  construct: "TetrisGame now r = Inr (g, r') \<Longrightarrow> reachable g"
| step: "reachable g \<Longrightarrow> perform opn g r = Inr (g', r') \<Longrightarrow> reachable g'"

section \<open>Predicates of the specification\<close>

text \<open>
  What the condition inside \<^verbatim>\<open>is_valid_position\<close> decides for one cell: the column is
  outside the board, or the row is below it, or the row is on the board and the grid
  cell is taken.
\<close>

definition collides :: "board \<Rightarrow> int \<Rightarrow> int \<Rightarrow> bool" where
  "collides b nx ny =
     (nx < 0 \<or> nx \<ge> width b \<or> ny \<ge> height b
      \<or> (0 \<le> ny \<and> grid b ! nat ny ! nat nx \<noteq> CHR ''.''))"

definition current_frame :: "tetromino \<Rightarrow> string list" where
  "current_frame p = shape p ! nat (rotation p mod int (length (shape p)))"

text \<open>
  A piece fits a board when every occupied cell of its current frame lies in a column
  of the board and above its bottom edge; it may reach above the top. Every position
  \<^verbatim>\<open>is_valid_position\<close> accepts is one where the piece fits.
\<close>

definition fits :: "board \<Rightarrow> tetromino \<Rightarrow> bool" where
  "fits b p =
     (\<forall>i<length (current_frame p). \<forall>j<length (current_frame p ! i).
        current_frame p ! i ! j \<noteq> CHR ''.'' \<longrightarrow>
        0 \<le> x p + int j \<and> x p + int j < width b \<and> y p + int i < height b)"

definition grid_wf :: "int \<Rightarrow> int \<Rightarrow> char list list \<Rightarrow> bool" where
  "grid_wf w h g = (int (length g) = h \<and> (\<forall>row \<in> set g. int (length row) = w))"

text \<open>
  The float expression of \<^verbatim>\<open>lock_piece\<close>,
  \<^verbatim>\<open>max(0.05, 1.0 - k * 0.05)\<close>, for the float \<open>k\<close> the integer
  \<^verbatim>\<open>self.level - 1\<close> converts to.
\<close>

definition interval_expr :: "double \<Rightarrow> double" where
  "interval_expr k =
     py_max (float_literal 0.05) (fsub (float_literal 1.0) (fmul k (float_literal 0.05)))"

text \<open>
  The state \<^verbatim>\<open>lock_piece\<close> hands to \<^verbatim>\<open>spawn_new_piece\<close>: the board after the
  commit and the line clear, and the counters updated when lines were cleared.
\<close>

definition locked :: "tetris_game \<Rightarrow> board \<Rightarrow> int \<Rightarrow> tetris_game" where
  "locked g b2 n =
     (if 0 < n then
        g\<lparr>board := b2,
          lines_cleared := lines_cleared g + n,
          score := score g
                   + (if n = 1 then 40 else if n = 2 then 100 else if n = 3 then 300
                      else if n = 4 then 1200 else 0) * (level g + 1),
          level := min 20 ((lines_cleared g + n) div 10 + 1),
          drop_interval :=
            interval_expr (Finite (of_int (min 20 ((lines_cleared g + n) div 10 + 1) - 1)))\<rparr>
      else g\<lparr>board := b2\<rparr>)"

text \<open>
  What every game built by the constructor and changed by the public operations
  satisfies: the board is the well-formed 10 by 20 board, the current piece fits it, the
  next piece is a fresh one, and the counters are in their ranges. \<open>spawn_ready\<close> is
  the part that holds before the first piece is spawned as well.
\<close>

definition spawn_ready :: "tetris_game \<Rightarrow> bool" where
  "spawn_ready g =
     (board_wf (board g) \<and> width (board g) = 10 \<and> height (board g) = 20
      \<and> (next_piece g = None \<or> (\<exists>k. next_piece g = Some (Tetromino k)))
      \<and> 0 \<le> score g \<and> 1 \<le> level g \<and> 0 \<le> lines_cleared g)"

definition game_inv :: "tetris_game \<Rightarrow> bool" where
  "game_inv g =
     (spawn_ready g
      \<and> (\<exists>p. current_piece g = Some p \<and> fits (board g) p)
      \<and> (\<exists>k. next_piece g = Some (Tetromino k)))"

text \<open>
  The operations that reset the score: \<^verbatim>\<open>restart\<close>, and the input layer on the
  restart key.
\<close>

fun resets :: "operation \<Rightarrow> bool" where
  "resets (Restart now) = True"
| "resets (HandleInput key now) = (key = ord CHR ''r'' \<or> key = ord CHR ''R'')"
| "resets opn = False"

section \<open>Example games\<close>

definition example_board :: board where
  "example_board = \<lparr>width = 4, height = 3, grid = [''....'', ''....'', ''X...'']\<rparr>"

definition example_game :: tetris_game where
  "example_game =
     \<lparr>board = example_board,
      current_piece = Some \<lparr>type = KO, rotation = 0, x = 1, y = 0\<rparr>,
      next_piece = Some (Tetromino KT),
      score = 7, level = 3, lines_cleared = 25, paused = False, game_over = False,
      theme = GREEN, last_drop_time = Finite 0, drop_interval = Finite 1\<rparr>"

definition lock_example :: tetris_game where
  "lock_example =
     \<lparr>board = \<lparr>width = 10, height = 3,
               grid = [''..........'', ''XX..XXXXXX'', ''XX..XXXXXX'']\<rparr>,
      current_piece = Some \<lparr>type = KO, rotation = 0, x = 2, y = 1\<rparr>,
      next_piece = Some (Tetromino KT),
      score = 7, level = 8, lines_cleared = 75, paused = False, game_over = False,
      theme = GREEN, last_drop_time = Finite 0, drop_interval = Finite 1\<rparr>"

text \<open>The game the constructor returns when every draw of the generator is an I.\<close>

definition fresh_game :: tetris_game where
  "fresh_game =
     \<lparr>board = Board 10 20, current_piece = Some (Tetromino KI),
      next_piece = Some (Tetromino KI), score = 0, level = 1, lines_cleared = 0,
      paused = False, game_over = False, theme = GREEN, last_drop_time = Finite 0,
      drop_interval = Finite 1\<rparr>"

text \<open>
  \<open>fresh_game\<close> after its piece has moved one column to the right, and \<open>fresh_game\<close>
  with both pieces somewhere else on the board.
\<close>

definition moved_game :: tetris_game where
  "moved_game = fresh_game\<lparr>current_piece := Some \<lparr>type = KI, rotation = 0, x = 5, y = 0\<rparr>\<rparr>"

definition displaced_game :: tetris_game where
  "displaced_game =
     fresh_game\<lparr>current_piece := Some \<lparr>type = KI, rotation = 0, x = 6, y = 5\<rparr>,
                next_piece := Some \<lparr>type = KT, rotation = 0, x = 7, y = 5\<rparr>\<rparr>"

section \<open>Frames and the end of the hard drop\<close>

text \<open>
  Facts about the catalogue that the termination of the hard drop rests on: no kind has
  an empty frame list, the frame lookup always succeeds, and every frame has an occupied
  cell. A position that is accepted therefore has its top left corner above the bottom
  of the board.
\<close>

lemma SHAPES_nonempty: "0 < length (SHAPES k)"
  by (cases k) simp_all

lemma shape_nonempty: "0 < length (shape p)"
  using SHAPES_nonempty [of "type p"] by (simp add: shape_def)

lemma frame_index_bounds:
  "0 \<le> rotation p mod int (length (shape p))"
  "rotation p mod int (length (shape p)) < int (length (shape p))"
  using shape_nonempty [of p] by simp_all

lemma frame_index_in_bounds:
  "nat (rotation p mod int (length (shape p))) < length (shape p)"
  using frame_index_bounds [of p] by linarith

lemma getitem_in_range:
  "0 \<le> i \<Longrightarrow> i < int (length xs) \<Longrightarrow> getitem xs i = Inr (xs ! nat i)"
  by (simp add: getitem_def)

lemma setitem_in_range:
  "0 \<le> i \<Longrightarrow> i < int (length xs) \<Longrightarrow> setitem xs i v = Inr (xs[nat i := v])"
  by (simp add: setitem_def)

lemma get_current_shape_eq:
  "get_current_shape p = Inr (shape p ! nat (rotation p mod int (length (shape p))))"
proof -
  have "py_mod (rotation p) (int (length (shape p))) = Inr (rotation p mod int (length (shape p)))"
    using shape_nonempty [of p] by (simp add: py_mod_def)
  then show ?thesis
    by (simp add: get_current_shape_def getitem_in_range [OF frame_index_bounds])
qed

lemma SHAPES_frame_occupied_all:
  "\<forall>frame \<in> set (SHAPES k).
     \<exists>row \<in> set frame. \<exists>cell \<in> set row. cell \<noteq> CHR ''.''"
  by (cases k) simp_all

lemma SHAPES_frame_occupied:
  "frame \<in> set (SHAPES k) \<Longrightarrow> \<exists>row \<in> set frame. \<exists>cell \<in> set row. cell \<noteq> CHR ''.''"
  using SHAPES_frame_occupied_all [of k] by blast

lemma current_frame_occupied:
  "get_current_shape p = Inr frame \<Longrightarrow> \<exists>row \<in> set frame. \<exists>cell \<in> set row. cell \<noteq> CHR ''.''"
proof -
  assume "get_current_shape p = Inr frame"
  then have "frame = shape p ! nat (rotation p mod int (length (shape p)))"
    by (simp add: get_current_shape_eq)
  then have "frame \<in> set (SHAPES (type p))"
    using frame_index_in_bounds [of p] by (simp add: shape_def)
  then show ?thesis by (rule SHAPES_frame_occupied)
qed

lemma blocked_False_row: "blocked b nx ny = Inr False \<Longrightarrow> ny < height b"
  by (auto simp: blocked_def split: if_splits sum.splits)

lemma is_valid_cols_row:
  "is_valid_cols b p dx dy r c cells = Inr True \<Longrightarrow> \<exists>cell \<in> set cells. cell \<noteq> CHR ''.''
   \<Longrightarrow> y p + int r + dy < height b"
proof (induction cells arbitrary: c)
  case Nil
  then show ?case by simp
next
  case (Cons cell cells)
  show ?case
  proof (cases "cell = CHR ''.''")
    case True
    with Cons show ?thesis by simp
  next
    case False
    with Cons.prems(1) have "blocked b (x p + int c + dx) (y p + int r + dy) = Inr False"
      by (auto split: sum.splits if_splits)
    then show ?thesis by (rule blocked_False_row)
  qed
qed

lemma is_valid_rows_row:
  "is_valid_rows b p dx dy r rows = Inr True
   \<Longrightarrow> \<exists>row \<in> set rows. \<exists>cell \<in> set row. cell \<noteq> CHR ''.''
   \<Longrightarrow> y p + dy < height b"
proof (induction rows arbitrary: r)
  case Nil
  then show ?case by simp
next
  case (Cons row rows)
  from Cons.prems(1) have cols: "is_valid_cols b p dx dy r 0 row = Inr True"
    and rest: "is_valid_rows b p dx dy (Suc r) rows = Inr True"
    by (auto split: sum.splits if_splits)
  show ?case
  proof (cases "\<exists>cell \<in> set row. cell \<noteq> CHR ''.''")
    case True
    with cols have "y p + int r + dy < height b" by (rule is_valid_cols_row)
    then show ?thesis by simp
  next
    case False
    with Cons.prems(2) have "\<exists>row \<in> set rows. \<exists>cell \<in> set row. cell \<noteq> CHR ''.''" by auto
    with rest show ?thesis by (rule Cons.IH)
  qed
qed

lemma is_valid_position_row:
  "is_valid_position b p dx dy = Inr True \<Longrightarrow> y p + dy < height b"
  by (auto simp: is_valid_position_def split: sum.splits
           dest: current_frame_occupied is_valid_rows_row)

termination hard_drop_loop
proof (relation "measure (\<lambda>g. case current_piece g of
                                 None \<Rightarrow> 0
                               | Some p \<Rightarrow> nat (height (board g) - y p))")
  show "wf (measure (\<lambda>g. case current_piece g of
                            None \<Rightarrow> 0
                          | Some p \<Rightarrow> nat (height (board g) - y p)))"
    by simp
next
  fix g :: tetris_game and res g' moved
  assume mv: "move_piece g 0 1 = Inr res" and res: "(g', moved) = res" and moved: moved
  from mv res moved obtain p where p: "current_piece g = Some p"
    and ok: "is_valid_position (board g) p 0 1 = Inr True"
    and g': "g' = g\<lparr>current_piece := Some (p\<lparr>x := x p + 0, y := y p + 1\<rparr>)\<rparr>"
    by (auto simp: move_piece_def split: option.splits sum.splits if_splits)
  from ok have "y p + 1 < height (board g)" by (rule is_valid_position_row)
  then show "(g'\<lparr>score := score g' + HARD_DROP_POINTS\<rparr>, g)
        \<in> measure (\<lambda>g. case current_piece g of
                          None \<Rightarrow> 0
                        | Some p \<Rightarrow> nat (height (board g) - y p))"
    by (simp add: p g')
qed

declare hard_drop_loop.simps [simp del]

section \<open>Rotation\<close>

lemma SHAPES_length:
  "length (SHAPES k) = (case k of KI \<Rightarrow> 4 | KO \<Rightarrow> 1 | KT \<Rightarrow> 4 | KS \<Rightarrow> 2 | KZ \<Rightarrow> 2 | KJ \<Rightarrow> 4 | KL \<Rightarrow> 4)"
  by (cases k) simp_all

lemma rotate_eq: "rotate p = p\<lparr>rotation := (rotation p + 1) mod int (length (shape p))\<rparr>"
  by (simp add: rotate_def Tetromino_def)

lemma shape_rotate [simp]: "shape (rotate p) = shape p"
  by (simp add: rotate_eq shape_def)

lemma shape_update [simp]:
  "shape (p\<lparr>rotation := r\<rparr>) = shape p"
  "shape (p\<lparr>x := a\<rparr>) = shape p"
  "shape (p\<lparr>y := c\<rparr>) = shape p"
  by (simp_all add: shape_def)

lemma rotate_funpow:
  "(rotate ^^ Suc n) p = p\<lparr>rotation := (rotation p + int (Suc n)) mod int (length (shape p))\<rparr>"
proof (induction n)
  case 0
  show ?case by (simp add: rotate_eq)
next
  case (Suc n)
  have "(rotate ^^ Suc (Suc n)) p = rotate ((rotate ^^ Suc n) p)" by simp
  also have "\<dots> = rotate (p\<lparr>rotation := (rotation p + int (Suc n)) mod int (length (shape p))\<rparr>)"
    by (simp only: Suc.IH)
  also have "\<dots> = p\<lparr>rotation := (rotation p + int (Suc (Suc n))) mod int (length (shape p))\<rparr>"
    by (simp add: rotate_eq mod_add_left_eq add.assoc)
  finally show ?case .
qed

text \<open>
  Claim C6. One \<^verbatim>\<open>rotate\<close> returns a piece of the same kind and position whose
  rotation index is the old one plus one, modulo the frame count of the kind: 4 for I,
  T, J and L, 1 for O, 2 for S and Z. After as many rotations as the kind has frames the
  rotation index is the old one reduced modulo the frame count; so a piece whose
  rotation index is an index of its frame list (as it is for every piece built by
  \<^verbatim>\<open>Tetromino\<close> and \<^verbatim>\<open>rotate\<close>) comes back to itself, rotation index, kind and
  position. \<open>rotate\<close> is a function of the piece: the original is not changed.
\<close>

theorem rotate_full_cycle:
  "length (shape p) =
     (case type p of KI \<Rightarrow> 4 | KO \<Rightarrow> 1 | KT \<Rightarrow> 4 | KS \<Rightarrow> 2 | KZ \<Rightarrow> 2 | KJ \<Rightarrow> 4 | KL \<Rightarrow> 4)
   \<and> rotate p = p\<lparr>rotation := (rotation p + 1) mod int (length (shape p))\<rparr>
   \<and> type (rotate p) = type p \<and> x (rotate p) = x p \<and> y (rotate p) = y p
   \<and> (rotate ^^ length (shape p)) p = p\<lparr>rotation := rotation p mod int (length (shape p))\<rparr>
   \<and> (0 \<le> rotation p \<and> rotation p < int (length (shape p)) \<longrightarrow>
        (rotate ^^ length (shape p)) p = p)"
proof -
  obtain m where m: "length (shape p) = Suc m"
    using shape_nonempty [of p] by (cases "length (shape p)") auto
  have "(rotate ^^ Suc m) p = p\<lparr>rotation := (rotation p + int (Suc m)) mod int (Suc m)\<rparr>"
    using rotate_funpow [of m p] m by simp
  moreover have "(rotation p + int (Suc m)) mod int (Suc m) = rotation p mod int (Suc m)"
    by simp
  ultimately have cycle:
    "(rotate ^^ length (shape p)) p = p\<lparr>rotation := rotation p mod int (length (shape p))\<rparr>"
    using m by simp
  have "0 \<le> rotation p \<and> rotation p < int (length (shape p)) \<longrightarrow>
        (rotate ^^ length (shape p)) p = p"
    by (simp add: cycle)
  moreover have "length (shape p) =
     (case type p of KI \<Rightarrow> 4 | KO \<Rightarrow> 1 | KT \<Rightarrow> 4 | KS \<Rightarrow> 2 | KZ \<Rightarrow> 2 | KJ \<Rightarrow> 4 | KL \<Rightarrow> 4)"
    by (simp add: shape_def SHAPES_length)
  moreover have "type (rotate p) = type p \<and> x (rotate p) = x p \<and> y (rotate p) = y p"
    by (simp add: rotate_eq)
  ultimately show ?thesis using cycle rotate_eq [of p] by blast
qed

theorem rotate_full_cycle_witness:
  "(rotate ^^ 4) (Tetromino KT\<lparr>rotation := 3\<rparr>) = Tetromino KT\<lparr>rotation := 3\<rparr>
   \<and> rotation (rotate (Tetromino KT\<lparr>rotation := 3\<rparr>)) = 0
   \<and> (rotate ^^ 2) (Tetromino KS) = Tetromino KS
   \<and> rotate (Tetromino KO) = Tetromino KO"
proof -
  have t: "length (shape (Tetromino KT\<lparr>rotation := 3\<rparr>)) = 4"
    and s: "length (shape (Tetromino KS)) = 2" and o: "length (shape (Tetromino KO)) = 1"
    by (simp_all add: shape_def Tetromino_def)
  have "(rotate ^^ 4) (Tetromino KT\<lparr>rotation := 3\<rparr>) = Tetromino KT\<lparr>rotation := 3\<rparr>
     \<and> rotation (rotate (Tetromino KT\<lparr>rotation := 3\<rparr>)) = 0"
    using rotate_full_cycle [of "Tetromino KT\<lparr>rotation := 3\<rparr>"] unfolding t
    by simp
  moreover have "(rotate ^^ 2) (Tetromino KS) = Tetromino KS"
    using rotate_full_cycle [of "Tetromino KS"] unfolding s
    by (simp add: Tetromino_def)
  moreover have "rotate (Tetromino KO) = Tetromino KO"
    using rotate_full_cycle [of "Tetromino KO"] unfolding o
    by (simp add: Tetromino_def)
  ultimately show ?thesis by simp
qed

section \<open>Clearing lines\<close>

lemma clear_lines_scan_eq:
  "clear_lines_scan rows new_grid n =
     (new_grid @ filter (\<lambda>row. CHR ''.'' \<in> set row) rows,
      n + int (length (filter (\<lambda>row. CHR ''.'' \<notin> set row) rows)))"
  by (induction rows arbitrary: new_grid n) simp_all

lemma clear_lines_fill_eq:
  "clear_lines_fill w h new_grid =
     replicate (nat (h - int (length new_grid))) (replicate (nat w) CHR ''.'') @ new_grid"
proof (induction w h new_grid rule: clear_lines_fill.induct)
  case (1 w h new_grid)
  show ?case
  proof (cases "int (length new_grid) < h")
    case True
    then have "nat (h - int (length new_grid)) = Suc (nat (h - int (length (replicate (nat w) CHR ''.'' # new_grid))))"
      by simp
    with True "1.IH" show ?thesis
      by (subst clear_lines_fill.simps) (simp add: replicate_app_Cons_same)
  next
    case False
    then show ?thesis by (subst clear_lines_fill.simps) simp
  qed
qed

lemma length_filter_split:
  "length (filter P xs) + length (filter (\<lambda>a. \<not> P a) xs) = length xs"
  by (induction xs) simp_all

lemma clear_lines_eq:
  assumes "int (length (grid b)) = height b"
  shows "clear_lines b =
           (b\<lparr>grid :=
                replicate (length (filter (\<lambda>row. CHR ''.'' \<notin> set row) (grid b)))
                  (replicate (nat (width b)) CHR ''.'')
                @ filter (\<lambda>row. CHR ''.'' \<in> set row) (grid b)\<rparr>,
            int (length (filter (\<lambda>row. CHR ''.'' \<notin> set row) (grid b))))"
proof -
  have "length (filter (\<lambda>row. CHR ''.'' \<in> set row) (grid b))
      + length (filter (\<lambda>row. CHR ''.'' \<notin> set row) (grid b)) = length (grid b)"
    by (rule length_filter_split)
  with assms have "nat (height b - int (length (filter (\<lambda>row. CHR ''.'' \<in> set row) (grid b))))
      = length (filter (\<lambda>row. CHR ''.'' \<notin> set row) (grid b))"
    by linarith
  then show ?thesis
    by (simp add: clear_lines_def clear_lines_scan_eq clear_lines_fill_eq)
qed

text \<open>
  Claim C3. On a board whose grid has \<open>height\<close> rows, \<^verbatim>\<open>clear_lines\<close> leaves the
  rows that hold an empty cell, in their order and unchanged, below as many new empty
  rows as there were rows without an empty cell; it returns that number (0 when no row
  is complete), and the grid has \<open>height\<close> rows again.
\<close>

theorem clear_lines_spec:
  assumes "int (length (grid b)) = height b"
  shows "clear_lines b =
           (b\<lparr>grid :=
                replicate (length (filter (\<lambda>row. CHR ''.'' \<notin> set row) (grid b)))
                  (replicate (nat (width b)) CHR ''.'')
                @ filter (\<lambda>row. CHR ''.'' \<in> set row) (grid b)\<rparr>,
            int (length (filter (\<lambda>row. CHR ''.'' \<notin> set row) (grid b))))
       \<and> int (length (grid (fst (clear_lines b)))) = height b"
proof -
  have "length (filter (\<lambda>row. CHR ''.'' \<notin> set row) (grid b))
      + length (filter (\<lambda>row. CHR ''.'' \<in> set row) (grid b)) = length (grid b)"
    using length_filter_split [of "\<lambda>row. CHR ''.'' \<in> set row" "grid b"] by simp
  with assms show ?thesis
    unfolding clear_lines_eq [OF assms] by simp
qed

theorem clear_lines_spec_witness:
  "int (length (grid \<lparr>width = 2, height = 3, grid = [''XX'', ''.X'', ''XX'']\<rparr>)) = 3
   \<and> clear_lines \<lparr>width = 2, height = 3, grid = [''XX'', ''.X'', ''XX'']\<rparr> =
       (\<lparr>width = 2, height = 3, grid = [''..'', ''..'', ''.X'']\<rparr>, 2)
   \<and> clear_lines \<lparr>width = 2, height = 2, grid = [''X.'', ''.X'']\<rparr> =
       (\<lparr>width = 2, height = 2, grid = [''X.'', ''.X'']\<rparr>, 0)"
  using clear_lines_spec [of "\<lparr>width = 2, height = 3, grid = [''XX'', ''.X'', ''XX'']\<rparr>"]
        clear_lines_spec [of "\<lparr>width = 2, height = 2, grid = [''X.'', ''.X'']\<rparr>"]
  by (simp add: numeral_2_eq_2)

section \<open>Placement validation\<close>

lemma board_wf_row:
  assumes "board_wf b" and "0 \<le> ny" and "ny < height b"
  shows "int (length (grid b ! nat ny)) = width b"
proof -
  from assms have "int (length (grid b)) = height b" by (simp add: board_wf_def)
  with assms have "nat ny < length (grid b)" by linarith
  then have "grid b ! nat ny \<in> set (grid b)" by (rule nth_mem)
  with assms(1) show ?thesis by (simp add: board_wf_def)
qed

lemma blocked_outside:
  "nx < 0 \<or> nx \<ge> width b \<or> ny < 0 \<or> ny \<ge> height b
   \<Longrightarrow> blocked b nx ny = Inr (nx < 0 \<or> nx \<ge> width b \<or> ny \<ge> height b)"
  by (auto simp: blocked_def)

lemma blocked_inside:
  assumes "board_wf b" and "0 \<le> nx" and "nx < width b" and "0 \<le> ny" and "ny < height b"
  shows "blocked b nx ny = Inr (grid b ! nat ny ! nat nx \<noteq> CHR ''.'')"
proof -
  from assms have "ny < int (length (grid b))" by (simp add: board_wf_def)
  with assms have row: "getitem (grid b) ny = Inr (grid b ! nat ny)"
    by (simp add: getitem_in_range)
  from assms have "nx < int (length (grid b ! nat ny))"
    by (simp add: board_wf_row)
  with assms have "getitem (grid b ! nat ny) nx = Inr (grid b ! nat ny ! nat nx)"
    by (simp add: getitem_in_range)
  with row assms show ?thesis by (simp add: blocked_def)
qed

lemma blocked_eq: "board_wf b \<Longrightarrow> blocked b nx ny = Inr (collides b nx ny)"
proof (cases "nx < 0 \<or> nx \<ge> width b \<or> ny < 0 \<or> ny \<ge> height b")
  case True
  then show ?thesis by (auto simp: blocked_outside collides_def)
next
  case False
  assume "board_wf b"
  with False show ?thesis by (simp add: blocked_inside collides_def)
qed

lemma all_less_Suc_shift: "(\<forall>j<Suc n. P j) = (P 0 \<and> (\<forall>j<n. P (Suc j)))"
  by (metis less_Suc_eq_0_disj)

lemma is_valid_cols_eq:
  "board_wf b \<Longrightarrow>
   is_valid_cols b p dx dy r c cells =
     Inr (\<forall>j<length cells. cells ! j \<noteq> CHR ''.'' \<longrightarrow>
            \<not> collides b (x p + int (c + j) + dx) (y p + int r + dy))"
proof (induction cells arbitrary: c)
  case Nil
  then show ?case by simp
next
  case (Cons cell cells)
  show ?case
    by (simp add: Cons.IH [OF Cons.prems] blocked_eq [OF Cons.prems] all_less_Suc_shift
          ac_simps)
qed

lemma is_valid_rows_eq:
  "board_wf b \<Longrightarrow>
   is_valid_rows b p dx dy r rows =
     Inr (\<forall>i<length rows. \<forall>j<length (rows ! i). rows ! i ! j \<noteq> CHR ''.'' \<longrightarrow>
            \<not> collides b (x p + int j + dx) (y p + int (r + i) + dy))"
proof (induction rows arbitrary: r)
  case Nil
  then show ?case by simp
next
  case (Cons row rows)
  show ?case
    by (simp add: Cons.IH [OF Cons.prems] is_valid_cols_eq [OF Cons.prems] all_less_Suc_shift
          ac_simps)
qed

lemma is_valid_position_eq:
  "board_wf b \<Longrightarrow>
   is_valid_position b p dx dy =
     Inr (\<forall>i<length (current_frame p). \<forall>j<length (current_frame p ! i).
            current_frame p ! i ! j \<noteq> CHR ''.'' \<longrightarrow>
            \<not> collides b (x p + int j + dx) (y p + int i + dy))"
  by (simp add: is_valid_position_def get_current_shape_eq is_valid_rows_eq current_frame_def)

lemma get_current_shape_frame: "get_current_shape p = Inr (current_frame p)"
  by (simp add: get_current_shape_eq current_frame_def)

text \<open>
  Claim C1. On a well-formed board, for every piece and offset,
  \<^verbatim>\<open>is_valid_position\<close> returns (it raises nothing), and it returns False exactly when
  some occupied cell of the piece's current frame, placed at \<open>(x + dx, y + dy)\<close>, has
  its column outside \<open>[0, width)\<close>, or its row at or below \<open>height\<close>, or, its row
  being at least 0, lies on an occupied grid cell. A cell in a row above the board is
  held against the column bounds only. The function returns a truth value and nothing
  else: board and piece are its arguments and are not changed.
\<close>

theorem is_valid_position_spec:
  assumes "board_wf b"
  shows "is_valid_position b p dx dy =
           Inr (\<not> (\<exists>i j. i < length (current_frame p) \<and> j < length (current_frame p ! i)
                  \<and> current_frame p ! i ! j \<noteq> CHR ''.''
                  \<and> (x p + int j + dx < 0 \<or> x p + int j + dx \<ge> width b
                     \<or> y p + int i + dy \<ge> height b
                     \<or> (0 \<le> y p + int i + dy
                        \<and> grid b ! nat (y p + int i + dy) ! nat (x p + int j + dx)
                            \<noteq> CHR ''.''))))"
proof -
  have "(\<forall>i<length (current_frame p). \<forall>j<length (current_frame p ! i).
            current_frame p ! i ! j \<noteq> CHR ''.'' \<longrightarrow>
            \<not> collides b (x p + int j + dx) (y p + int i + dy))
      = (\<not> (\<exists>i j. i < length (current_frame p) \<and> j < length (current_frame p ! i)
                  \<and> current_frame p ! i ! j \<noteq> CHR ''.''
                  \<and> collides b (x p + int j + dx) (y p + int i + dy)))"
    by blast
  then show ?thesis
    using is_valid_position_eq [OF assms, of p dx dy] by (simp add: collides_def)
qed

lemma small_board_wf:
  "board_wf \<lparr>width = 4, height = 3, grid = [''....'', ''....'', ''X...'']\<rparr>"
  by (simp add: board_wf_def)

theorem is_valid_position_spec_witness:
  "board_wf \<lparr>width = 4, height = 3, grid = [''....'', ''....'', ''X...'']\<rparr>
   \<and> is_valid_position \<lparr>width = 4, height = 3, grid = [''....'', ''....'', ''X...'']\<rparr>
        \<lparr>type = KO, rotation = 0, x = 1, y = 0\<rparr> 0 1 = Inr True
   \<and> is_valid_position \<lparr>width = 4, height = 3, grid = [''....'', ''....'', ''X...'']\<rparr>
        \<lparr>type = KO, rotation = 0, x = 1, y = 0\<rparr> (- 1) 1 = Inr False
   \<and> is_valid_position \<lparr>width = 4, height = 3, grid = [''....'', ''....'', ''X...'']\<rparr>
        \<lparr>type = KO, rotation = 0, x = 1, y = 0\<rparr> 2 (- 3) = Inr False"
proof -
  let ?b = "\<lparr>width = 4, height = 3, grid = [''....'', ''....'', ''X...'']\<rparr>"
  let ?p = "\<lparr>type = KO, rotation = 0, x = 1, y = 0\<rparr>"
  have frame: "get_current_shape ?p = Inr [''OO'', ''OO'']"
    by (simp add: get_current_shape_eq shape_def)
  have a: "is_valid_position ?b ?p 0 1 = Inr True"
    by (simp add: is_valid_position_def frame blocked_def getitem_def)
  have c: "is_valid_position ?b ?p (- 1) 1 = Inr False"
    by (simp add: is_valid_position_def frame blocked_def getitem_def)
  have d: "is_valid_position ?b ?p 2 (- 3) = Inr False"
    by (simp add: is_valid_position_def frame blocked_def getitem_def)
  from is_valid_position_spec [OF small_board_wf, of ?p 0 1] small_board_wf a c d
  show ?thesis by simp
qed

text \<open>
  Claim C10. For every integer rotation value the frame lookup of
  \<^verbatim>\<open>get_current_shape\<close> uses the rotation reduced modulo the frame count, an index
  of the frame list, and returns that frame. \<^verbatim>\<open>is_valid_position\<close> raises no
  \<^verbatim>\<open>IndexError\<close> on a well-formed board, whatever the piece and the offset: for a
  cell outside \<open>[0, width) \<times> [0, height)\<close> the answer of its condition does not depend
  on the grid, which is not read, and for a cell inside both reads are within the lists.
\<close>

theorem lookups_in_bounds:
  assumes "board_wf b"
  shows "0 \<le> rotation p mod int (length (shape p))
       \<and> rotation p mod int (length (shape p)) < int (length (shape p))
       \<and> get_current_shape p = Inr (shape p ! nat (rotation p mod int (length (shape p))))
       \<and> (\<exists>ok. is_valid_position b p dx dy = Inr ok)
       \<and> (\<forall>nx ny g. nx < 0 \<or> nx \<ge> width b \<or> ny < 0 \<or> ny \<ge> height b \<longrightarrow>
             blocked (b\<lparr>grid := g\<rparr>) nx ny = blocked b nx ny)
       \<and> (\<forall>nx ny. 0 \<le> nx \<and> nx < width b \<and> 0 \<le> ny \<and> ny < height b \<longrightarrow>
             nat ny < length (grid b) \<and> nat nx < length (grid b ! nat ny)
             \<and> blocked b nx ny = Inr (grid b ! nat ny ! nat nx \<noteq> CHR ''.''))"
proof -
  have outside: "\<forall>nx ny g. nx < 0 \<or> nx \<ge> width b \<or> ny < 0 \<or> ny \<ge> height b \<longrightarrow>
             blocked (b\<lparr>grid := g\<rparr>) nx ny = blocked b nx ny"
    by (auto simp: blocked_def)
  have inside: "\<forall>nx ny. 0 \<le> nx \<and> nx < width b \<and> 0 \<le> ny \<and> ny < height b \<longrightarrow>
             nat ny < length (grid b) \<and> nat nx < length (grid b ! nat ny)
             \<and> blocked b nx ny = Inr (grid b ! nat ny ! nat nx \<noteq> CHR ''.'')"
  proof (intro allI impI)
    fix nx ny
    assume in_board: "0 \<le> nx \<and> nx < width b \<and> 0 \<le> ny \<and> ny < height b"
    with assms have "int (length (grid b ! nat ny)) = width b"
      by (simp add: board_wf_row)
    moreover from assms have "int (length (grid b)) = height b"
      by (simp add: board_wf_def)
    ultimately have "nat ny < length (grid b) \<and> nat nx < length (grid b ! nat ny)"
      using in_board by linarith
    with assms in_board
    show "nat ny < length (grid b) \<and> nat nx < length (grid b ! nat ny)
             \<and> blocked b nx ny = Inr (grid b ! nat ny ! nat nx \<noteq> CHR ''.'')"
      by (simp add: blocked_inside)
  qed
  from frame_index_bounds [of p] get_current_shape_eq [of p]
       is_valid_position_eq [OF assms, of p dx dy] outside inside
  show ?thesis by blast
qed

theorem lookups_in_bounds_witness:
  "board_wf \<lparr>width = 4, height = 3, grid = [''....'', ''....'', ''X...'']\<rparr>
   \<and> get_current_shape (Tetromino KS\<lparr>rotation := - 7\<rparr>) = Inr [''.S.'', ''.SS'', ''..S'']
   \<and> (\<exists>ok. is_valid_position \<lparr>width = 4, height = 3, grid = [''....'', ''....'', ''X...'']\<rparr>
              (Tetromino KS\<lparr>rotation := - 7\<rparr>) 100 (- 100) = Inr ok)
   \<and> blocked \<lparr>width = 4, height = 3, grid = [''....'', ''....'', ''X...'']\<rparr> 0 2 = Inr True"
  using lookups_in_bounds [OF small_board_wf, of "Tetromino KS\<lparr>rotation := - 7\<rparr>" 100 "- 100"]
  by (simp add: small_board_wf shape_def Tetromino_def)

section \<open>Committing a piece\<close>

lemma board_wf_grid: "board_wf b = grid_wf (width b) (height b) (grid b)"
  by (simp add: board_wf_def grid_wf_def)

lemma grid_wf_update:
  assumes "grid_wf w h g" and "int (length row) = w"
  shows "grid_wf w h (g[n := row])"
proof -
  have "set (g[n := row]) \<subseteq> insert row (set g)" by (rule set_update_subset_insert)
  with assms show ?thesis by (auto simp: grid_wf_def)
qed

lemma grid_wf_nth:
  assumes "grid_wf w h g" and "0 \<le> cy" and "cy < h"
  shows "int (length (g ! nat cy)) = w"
proof -
  from assms have "nat cy < length g" by (simp add: grid_wf_def) linarith
  then have "g ! nat cy \<in> set g" by (rule nth_mem)
  with assms(1) show ?thesis by (simp add: grid_wf_def)
qed

lemma place_cols_ok:
  assumes "grid_wf w h g"
    and "\<forall>j<length cells. cells ! j \<noteq> CHR ''.'' \<longrightarrow>
           0 \<le> x p + int (c + j) \<and> x p + int (c + j) < w \<and> y p + int r < h"
  shows "\<exists>g'. place_cols g p r c cells = Inr g' \<and> grid_wf w h g'"
  using assms
proof (induction cells arbitrary: g c)
  case Nil
  then show ?case by simp
next
  case (Cons cell cells)
  have rest: "\<forall>j<length cells. cells ! j \<noteq> CHR ''.'' \<longrightarrow>
           0 \<le> x p + int (Suc c + j) \<and> x p + int (Suc c + j) < w \<and> y p + int r < h"
  proof (intro allI impI)
    fix j
    assume "j < length cells" and "cells ! j \<noteq> CHR ''.''"
    with Cons.prems(2) [rule_format, of "Suc j"]
    show "0 \<le> x p + int (Suc c + j) \<and> x p + int (Suc c + j) < w \<and> y p + int r < h"
      by simp
  qed
  have head: "cell \<noteq> CHR ''.'' \<longrightarrow> 0 \<le> x p + int c \<and> x p + int c < w \<and> y p + int r < h"
    using Cons.prems(2) [rule_format, of 0] by simp
  show ?case
  proof (cases "cell \<noteq> CHR ''.'' \<and> 0 \<le> y p + int r")
    case False
    then show ?thesis
      using Cons.IH [OF Cons.prems(1) rest] by (auto simp: Let_def)
  next
    case True
    let ?cy = "y p + int r" and ?cx = "x p + int c"
    from True head have cx: "0 \<le> ?cx" "?cx < w" and cy: "0 \<le> ?cy" "?cy < h" by simp_all
    from cy Cons.prems(1) have get: "getitem g ?cy = Inr (g ! nat ?cy)"
      by (simp add: getitem_in_range grid_wf_def)
    have len: "int (length (g ! nat ?cy)) = w"
      using Cons.prems(1) cy by (rule grid_wf_nth)
    with cx have set: "setitem (g ! nat ?cy) ?cx cell = Inr ((g ! nat ?cy)[nat ?cx := cell])"
      by (simp add: setitem_in_range)
    have "grid_wf w h (g[nat ?cy := (g ! nat ?cy)[nat ?cx := cell]])"
      using Cons.prems(1) len by (simp add: grid_wf_update)
    from Cons.IH [OF this rest] True get set show ?thesis
      by (simp add: Let_def)
  qed
qed

lemma place_rows_ok:
  assumes "grid_wf w h g"
    and "\<forall>i<length rows. \<forall>j<length (rows ! i). rows ! i ! j \<noteq> CHR ''.'' \<longrightarrow>
           0 \<le> x p + int j \<and> x p + int j < w \<and> y p + int (r + i) < h"
  shows "\<exists>g'. place_rows g p r rows = Inr g' \<and> grid_wf w h g'"
  using assms
proof (induction rows arbitrary: g r)
  case Nil
  then show ?case by simp
next
  case (Cons row rows)
  have rest: "\<forall>i<length rows. \<forall>j<length (rows ! i). rows ! i ! j \<noteq> CHR ''.'' \<longrightarrow>
           0 \<le> x p + int j \<and> x p + int j < w \<and> y p + int (Suc r + i) < h"
  proof (intro allI impI)
    fix i j
    assume "i < length rows" and "j < length (rows ! i)" and "rows ! i ! j \<noteq> CHR ''.''"
    with Cons.prems(2) [rule_format, of "Suc i" j]
    show "0 \<le> x p + int j \<and> x p + int j < w \<and> y p + int (Suc r + i) < h"
      by simp
  qed
  have head: "\<forall>j<length row. row ! j \<noteq> CHR ''.'' \<longrightarrow>
           0 \<le> x p + int (0 + j) \<and> x p + int (0 + j) < w \<and> y p + int r < h"
  proof (intro allI impI)
    fix j
    assume "j < length row" and "row ! j \<noteq> CHR ''.''"
    with Cons.prems(2) [rule_format, of 0 j]
    show "0 \<le> x p + int (0 + j) \<and> x p + int (0 + j) < w \<and> y p + int r < h"
      by simp
  qed
  from place_cols_ok [OF Cons.prems(1) head]
  obtain g1 where g1: "place_cols g p r 0 row = Inr g1" "grid_wf w h g1" by blast
  from Cons.IH [OF g1(2) rest] g1(1) show ?case by simp
qed

lemma place_piece_ok:
  assumes "board_wf b" and "fits b p"
  shows "\<exists>b'. place_piece b p = Inr b' \<and> board_wf b' \<and> width b' = width b
               \<and> height b' = height b"
proof -
  from assms(2)
  have "\<forall>i<length (current_frame p). \<forall>j<length (current_frame p ! i).
          current_frame p ! i ! j \<noteq> CHR ''.'' \<longrightarrow>
          0 \<le> x p + int j \<and> x p + int j < width b \<and> y p + int (0 + i) < height b"
    by (simp add: fits_def)
  from place_rows_ok [OF assms(1) [unfolded board_wf_grid] this]
  obtain g' where "place_rows (grid b) p 0 (current_frame p) = Inr g'"
    and "grid_wf (width b) (height b) g'" by blast
  then show ?thesis
    by (simp add: place_piece_def get_current_shape_frame board_wf_grid)
qed

lemma fits_width_pos: "fits b p \<Longrightarrow> 0 < width b"
proof -
  assume f: "fits b p"
  from current_frame_occupied [OF get_current_shape_frame, of p]
  obtain row cell where "row \<in> set (current_frame p)" "cell \<in> set row" "cell \<noteq> CHR ''.''"
    by blast
  then obtain i j where "i < length (current_frame p)" "j < length (current_frame p ! i)"
    "current_frame p ! i ! j \<noteq> CHR ''.''"
    by (metis in_set_conv_nth)
  with f have "0 \<le> x p + int j \<and> x p + int j < width b" by (simp add: fits_def)
  then show ?thesis by linarith
qed

lemma is_valid_position_fits:
  assumes "board_wf b" and "is_valid_position b p dx dy = Inr True"
  shows "fits b (p\<lparr>x := x p + dx, y := y p + dy\<rparr>)"
proof -
  have frame: "current_frame (p\<lparr>x := x p + dx, y := y p + dy\<rparr>) = current_frame p"
    by (simp add: current_frame_def)
  from assms(2) [unfolded is_valid_position_eq [OF assms(1)]]
  have free: "\<forall>i<length (current_frame p). \<forall>j<length (current_frame p ! i).
            current_frame p ! i ! j \<noteq> CHR ''.'' \<longrightarrow>
            \<not> collides b (x p + int j + dx) (y p + int i + dy)"
    by simp
  show ?thesis
    unfolding fits_def frame
  proof (intro allI impI)
    fix i j
    assume "i < length (current_frame p)" and "j < length (current_frame p ! i)"
      and "current_frame p ! i ! j \<noteq> CHR ''.''"
    with free have "\<not> collides b (x p + int j + dx) (y p + int i + dy)" by blast
    then show "0 \<le> x (p\<lparr>x := x p + dx, y := y p + dy\<rparr>) + int j
        \<and> x (p\<lparr>x := x p + dx, y := y p + dy\<rparr>) + int j < width b
        \<and> y (p\<lparr>x := x p + dx, y := y p + dy\<rparr>) + int i < height b"
      by (simp add: collides_def)
  qed
qed

lemma clear_lines_ok:
  assumes "board_wf b" and "0 \<le> width b"
  shows "\<exists>b' n. clear_lines b = (b', n) \<and> 0 \<le> n \<and> board_wf b' \<and> width b' = width b
                 \<and> height b' = height b"
proof -
  from assms(1) have len: "int (length (grid b)) = height b" by (simp add: board_wf_def)
  have "length (filter (\<lambda>row. CHR ''.'' \<notin> set row) (grid b))
      + length (filter (\<lambda>row. CHR ''.'' \<in> set row) (grid b)) = length (grid b)"
    using length_filter_split [of "\<lambda>row. CHR ''.'' \<in> set row" "grid b"] by simp
  with assms len show ?thesis
    unfolding clear_lines_eq [OF len] by (auto simp: board_wf_def)
qed

section \<open>Moving and spawning\<close>

lemma is_valid_position_total:
  "board_wf b \<Longrightarrow> \<exists>ok. is_valid_position b p dx dy = Inr ok"
  by (simp add: is_valid_position_eq)

text \<open>
  Claim C5. Without a current piece \<^verbatim>\<open>move_piece\<close> returns False and the game is
  unchanged. With one, on a well-formed board, the validation of the offset returns a
  truth value; when it is True the call returns True and the game differs from the old
  one in the piece's position alone, which is \<open>(x + dx, y + dy)\<close>; when it is False the
  call returns False and the whole game, hence the piece's position, rotation and kind,
  is unchanged.
\<close>

theorem move_piece_spec:
  assumes "board_wf (board g)"
  shows "(current_piece g = None \<longrightarrow> move_piece g dx dy = Inr (g, False))
       \<and> (\<forall>p. current_piece g = Some p \<longrightarrow>
             (\<exists>ok. is_valid_position (board g) p dx dy = Inr ok)
             \<and> (is_valid_position (board g) p dx dy = Inr True \<longrightarrow>
                  move_piece g dx dy =
                    Inr (g\<lparr>current_piece := Some (p\<lparr>x := x p + dx, y := y p + dy\<rparr>)\<rparr>, True))
             \<and> (is_valid_position (board g) p dx dy = Inr False \<longrightarrow>
                  move_piece g dx dy = Inr (g, False)))"
  using is_valid_position_total [OF assms]
  by (simp add: move_piece_def)

theorem move_piece_spec_witness:
  "board_wf (board \<lparr>board = \<lparr>width = 4, height = 3, grid = [''....'', ''....'', ''X...'']\<rparr>,
       current_piece = Some \<lparr>type = KO, rotation = 0, x = 1, y = 0\<rparr>, next_piece = None,
       score = 7, level = 1, lines_cleared = 0, paused = False, game_over = False,
       theme = GREEN, last_drop_time = Finite 0, drop_interval = Finite 1\<rparr>)
   \<and> move_piece \<lparr>board = \<lparr>width = 4, height = 3, grid = [''....'', ''....'', ''X...'']\<rparr>,
       current_piece = Some \<lparr>type = KO, rotation = 0, x = 1, y = 0\<rparr>, next_piece = None,
       score = 7, level = 1, lines_cleared = 0, paused = False, game_over = False,
       theme = GREEN, last_drop_time = Finite 0, drop_interval = Finite 1\<rparr> 0 1
     = Inr (\<lparr>board = \<lparr>width = 4, height = 3, grid = [''....'', ''....'', ''X...'']\<rparr>,
       current_piece = Some \<lparr>type = KO, rotation = 0, x = 1, y = 1\<rparr>, next_piece = None,
       score = 7, level = 1, lines_cleared = 0, paused = False, game_over = False,
       theme = GREEN, last_drop_time = Finite 0, drop_interval = Finite 1\<rparr>, True)
   \<and> move_piece \<lparr>board = \<lparr>width = 4, height = 3, grid = [''....'', ''....'', ''X...'']\<rparr>,
       current_piece = Some \<lparr>type = KO, rotation = 0, x = 1, y = 0\<rparr>, next_piece = None,
       score = 7, level = 1, lines_cleared = 0, paused = False, game_over = False,
       theme = GREEN, last_drop_time = Finite 0, drop_interval = Finite 1\<rparr> (- 1) 1
     = Inr (\<lparr>board = \<lparr>width = 4, height = 3, grid = [''....'', ''....'', ''X...'']\<rparr>,
       current_piece = Some \<lparr>type = KO, rotation = 0, x = 1, y = 0\<rparr>, next_piece = None,
       score = 7, level = 1, lines_cleared = 0, paused = False, game_over = False,
       theme = GREEN, last_drop_time = Finite 0, drop_interval = Finite 1\<rparr>, False)"
proof -
  let ?b = "\<lparr>width = 4, height = 3, grid = [''....'', ''....'', ''X...'']\<rparr>"
  let ?p = "\<lparr>type = KO, rotation = 0, x = 1, y = 0\<rparr>"
  let ?g = "\<lparr>board = ?b, current_piece = Some ?p, next_piece = None,
       score = 7, level = 1, lines_cleared = 0, paused = False, game_over = False,
       theme = GREEN, last_drop_time = Finite 0, drop_interval = Finite 1\<rparr>"
  have wf: "board_wf (board ?g)" by (simp add: small_board_wf)
  have frame: "get_current_shape ?p = Inr [''OO'', ''OO'']"
    by (simp add: get_current_shape_eq shape_def)
  have a: "is_valid_position ?b ?p 0 1 = Inr True"
    by (simp add: is_valid_position_def frame blocked_def getitem_def)
  have c: "is_valid_position ?b ?p (- 1) 1 = Inr False"
    by (simp add: is_valid_position_def frame blocked_def getitem_def)
  from move_piece_spec [OF wf, of 0 1] move_piece_spec [OF wf, of "- 1" 1] a c wf
  show ?thesis by simp
qed

lemma example_board_wf: "board_wf example_board"
  by (simp add: example_board_def board_wf_def)

lemma example_valid_down:
  "is_valid_position example_board \<lparr>type = KO, rotation = 0, x = 1, y = 0\<rparr> 0 1 = Inr True"
proof -
  have "get_current_shape \<lparr>type = KO, rotation = 0, x = 1, y = 0\<rparr> = Inr [''OO'', ''OO'']"
    by (simp add: get_current_shape_eq shape_def)
  then show ?thesis
    by (simp add: is_valid_position_def example_board_def blocked_def getitem_def)
qed

lemma example_move_down:
  "move_piece example_game 0 1 =
     Inr (example_game\<lparr>current_piece := Some \<lparr>type = KO, rotation = 0, x = 1, y = 1\<rparr>\<rparr>, True)"
  using example_valid_down by (simp add: move_piece_def example_game_def)

text \<open>
  Claim C8. For every offset, on a well-formed board, \<^verbatim>\<open>move_piece\<close> returns a game
  that differs from the old one in the current piece at most, and there in the position
  at most: score, level, line count, board, paused flag and game-over flag are the old
  ones. So \<^verbatim>\<open>move_piece(0, 1)\<close> leaves the score alone; the point for a soft drop is
  added by \<^verbatim>\<open>handle_input\<close>, after a successful move, on the down key.
\<close>

theorem move_piece_frame:
  assumes "board_wf (board g)"
  shows "(\<exists>g' moved. move_piece g dx dy = Inr (g', moved)
            \<and> score g' = score g \<and> level g' = level g
            \<and> lines_cleared g' = lines_cleared g \<and> board g' = board g
            \<and> paused g' = paused g \<and> game_over g' = game_over g
            \<and> g' = g\<lparr>current_piece := current_piece g'\<rparr>
            \<and> (current_piece g = None \<longrightarrow> current_piece g' = None)
            \<and> (\<forall>p. current_piece g = Some p \<longrightarrow>
                  (\<exists>p'. current_piece g' = Some p' \<and> p' = p\<lparr>x := x p', y := y p'\<rparr>)))
       \<and> (\<exists>g1 moved1. move_piece g 0 1 = Inr (g1, moved1) \<and> score g1 = score g
            \<and> (\<not> paused g \<and> \<not> game_over g \<longrightarrow>
                 (\<forall>now r. handle_input g KEY_DOWN now r =
                    Inr (True, if moved1 then g1\<lparr>score := score g + 1\<rparr> else g1, r))))"
proof -
  have frame: "\<exists>g' moved. move_piece g ax ay = Inr (g', moved)
            \<and> score g' = score g \<and> level g' = level g
            \<and> lines_cleared g' = lines_cleared g \<and> board g' = board g
            \<and> paused g' = paused g \<and> game_over g' = game_over g
            \<and> g' = g\<lparr>current_piece := current_piece g'\<rparr>
            \<and> (current_piece g = None \<longrightarrow> current_piece g' = None)
            \<and> (\<forall>p. current_piece g = Some p \<longrightarrow>
                  (\<exists>p'. current_piece g' = Some p' \<and> p' = p\<lparr>x := x p', y := y p'\<rparr>))" for ax ay
  proof (cases "current_piece g")
    case None
    then show ?thesis by (auto simp: move_piece_def)
  next
    case (Some p)
    from is_valid_position_total [OF assms, of p ax ay]
    obtain ok where "is_valid_position (board g) p ax ay = Inr ok" by blast
    with Some show ?thesis by (cases ok) (auto simp: move_piece_def)
  qed
  from frame [of 0 1] obtain g1 moved1 where
    mv: "move_piece g 0 1 = Inr (g1, moved1)" and sc: "score g1 = score g"
    by blast
  have "\<not> paused g \<and> \<not> game_over g \<longrightarrow>
          (\<forall>now r. handle_input g KEY_DOWN now r =
             Inr (True, if moved1 then g1\<lparr>score := score g + 1\<rparr> else g1, r))"
    using mv sc
    by (simp add: handle_input_def KEY_DOWN_def KEY_LEFT_def KEY_RIGHT_def ord_def)
  with mv sc frame [of dx dy] show ?thesis by blast
qed

theorem move_piece_frame_witness:
  "board_wf (board example_game)
   \<and> move_piece example_game 0 1 =
       Inr (example_game\<lparr>current_piece := Some \<lparr>type = KO, rotation = 0, x = 1, y = 1\<rparr>\<rparr>, True)
   \<and> score (fst (projr (move_piece example_game 0 1))) = 7
   \<and> handle_input example_game KEY_DOWN (Finite 0) (\<lambda>n. KI) =
       Inr (True,
            example_game\<lparr>current_piece := Some \<lparr>type = KO, rotation = 0, x = 1, y = 1\<rparr>,
                          score := 8\<rparr>,
            \<lambda>n. KI)"
proof -
  have wf: "board_wf (board example_game)"
    by (simp add: example_game_def example_board_wf)
  have run: "\<not> paused example_game \<and> \<not> game_over example_game"
    and sc: "score example_game = 7"
    by (simp_all add: example_game_def)
  from move_piece_frame [OF wf, of 0 1] obtain g1 moved1 where
    mv: "move_piece example_game 0 1 = Inr (g1, moved1)"
    and key: "\<not> paused example_game \<and> \<not> game_over example_game \<longrightarrow>
           (\<forall>now r. handle_input example_game KEY_DOWN now r =
              Inr (True, if moved1 then g1\<lparr>score := score example_game + 1\<rparr> else g1, r))"
    by blast
  from mv example_move_down
  have g1: "g1 = example_game\<lparr>current_piece := Some \<lparr>type = KO, rotation = 0, x = 1, y = 1\<rparr>\<rparr>"
    and moved1: moved1
    by simp_all
  from key run have "handle_input example_game KEY_DOWN (Finite 0) (\<lambda>n. KI) =
       Inr (True, if moved1 then g1\<lparr>score := score example_game + 1\<rparr> else g1, \<lambda>n. KI)"
    by blast
  with g1 moved1 sc wf example_move_down show ?thesis by simp
qed

section \<open>Spawning\<close>

lemma spawn_new_piece_eq:
  assumes "is_valid_position (board g)
             ((case next_piece g of None \<Rightarrow> Tetromino (r 0) | Some q \<Rightarrow> q)\<lparr>x := 4, y := 0\<rparr>) 0 0
           = Inr ok"
  shows "spawn_new_piece g r =
           Inr (g\<lparr>current_piece :=
                    Some ((case next_piece g of None \<Rightarrow> Tetromino (r 0) | Some q \<Rightarrow> q)
                            \<lparr>x := 4, y := 0\<rparr>),
                  next_piece :=
                    Some (Tetromino (case next_piece g of None \<Rightarrow> r 1 | Some q \<Rightarrow> r 0)),
                  game_over := game_over g \<or> \<not> ok\<rparr>,
                case next_piece g of
                  None \<Rightarrow> (\<lambda>n. r (Suc (Suc n)))
                | Some q \<Rightarrow> (\<lambda>n. r (Suc n)))"
proof (cases "next_piece g")
  case None
  with assms show ?thesis
    by (cases ok) (simp_all add: spawn_new_piece_def random_choice_def Let_def)
next
  case (Some q)
  with assms show ?thesis
    by (cases ok) (simp_all add: spawn_new_piece_def random_choice_def Let_def)
qed

text \<open>
  Claim C4. On a well-formed board \<^verbatim>\<open>spawn_new_piece\<close> returns. The current piece
  is then the incoming piece (the old next piece, or a fresh one when there was none)
  moved to column 4, row 0; the board is the old board. When that piece fails the
  validation, the game-over flag is set and the piece stays the current piece, at the
  spawn position; when it passes, the flag keeps its value.
\<close>

theorem spawn_new_piece_game_over:
  assumes "board_wf (board g)"
  shows "\<exists>g' r' p ok.
           spawn_new_piece g r = Inr (g', r')
         \<and> p = (case next_piece g of None \<Rightarrow> Tetromino (r 0) | Some q \<Rightarrow> q)\<lparr>x := 4, y := 0\<rparr>
         \<and> current_piece g' = Some p \<and> x p = 4 \<and> y p = 0
         \<and> board g' = board g
         \<and> is_valid_position (board g) p 0 0 = Inr ok
         \<and> (\<not> ok \<longrightarrow> game_over g')
         \<and> (ok \<longrightarrow> game_over g' = game_over g)"
proof -
  let ?p = "(case next_piece g of None \<Rightarrow> Tetromino (r 0) | Some q \<Rightarrow> q)\<lparr>x := 4, y := 0\<rparr>"
  from is_valid_position_total [OF assms, of ?p 0 0]
  obtain ok where ok: "is_valid_position (board g) ?p 0 0 = Inr ok" by blast
  from spawn_new_piece_eq [of g r ok] ok show ?thesis by simp
qed

lemma example_spawn_blocked:
  "is_valid_position \<lparr>width = 10, height = 2, grid = [''..........'', ''.....X....'']\<rparr>
     \<lparr>type = KT, rotation = 0, x = 4, y = 0\<rparr> 0 0 = Inr False"
proof -
  have "get_current_shape \<lparr>type = KT, rotation = 0, x = 4, y = 0\<rparr> = Inr [''.T.'', ''TTT'', ''...'']"
    by (simp add: get_current_shape_eq shape_def)
  then show ?thesis
    by (simp add: is_valid_position_def blocked_def getitem_def)
qed

theorem spawn_new_piece_game_over_witness:
  "board_wf \<lparr>width = 10, height = 2, grid = [''..........'', ''.....X....'']\<rparr>
   \<and> spawn_new_piece
        \<lparr>board = \<lparr>width = 10, height = 2, grid = [''..........'', ''.....X....'']\<rparr>,
         current_piece = None, next_piece = Some \<lparr>type = KT, rotation = 0, x = 4, y = 0\<rparr>,
         score = 0, level = 1, lines_cleared = 0, paused = False, game_over = False,
         theme = GREEN, last_drop_time = Finite 0, drop_interval = Finite 1\<rparr> (\<lambda>n. KO)
     = Inr (\<lparr>board = \<lparr>width = 10, height = 2, grid = [''..........'', ''.....X....'']\<rparr>,
         current_piece = Some \<lparr>type = KT, rotation = 0, x = 4, y = 0\<rparr>,
         next_piece = Some \<lparr>type = KO, rotation = 0, x = 4, y = 0\<rparr>,
         score = 0, level = 1, lines_cleared = 0, paused = False, game_over = True,
         theme = GREEN, last_drop_time = Finite 0, drop_interval = Finite 1\<rparr>, \<lambda>n. KO)"
proof -
  let ?b = "\<lparr>width = 10, height = 2, grid = [''..........'', ''.....X....'']\<rparr>"
  let ?g = "\<lparr>board = ?b,
         current_piece = None, next_piece = Some \<lparr>type = KT, rotation = 0, x = 4, y = 0\<rparr>,
         score = 0, level = 1, lines_cleared = 0, paused = False, game_over = False,
         theme = GREEN, last_drop_time = Finite 0, drop_interval = Finite 1\<rparr>"
  have wf: "board_wf (board ?g)" by (simp add: board_wf_def)
  from spawn_new_piece_game_over [OF wf, of "\<lambda>n. KO"]
  obtain g' r' p ok where
    sp: "spawn_new_piece ?g (\<lambda>n. KO) = Inr (g', r')"
    and p: "p = \<lparr>type = KT, rotation = 0, x = 4, y = 0\<rparr>"
    and ok: "is_valid_position ?b p 0 0 = Inr ok"
    and over: "\<not> ok \<longrightarrow> game_over g'"
    by auto
  from ok p example_spawn_blocked have "\<not> ok" by simp
  with over have "game_over g'" by simp
  moreover have "spawn_new_piece ?g (\<lambda>n. KO) =
      Inr (?g\<lparr>current_piece := Some \<lparr>type = KT, rotation = 0, x = 4, y = 0\<rparr>,
               next_piece := Some (Tetromino KO), game_over := True\<rparr>, \<lambda>n. KO)"
    using spawn_new_piece_eq [of ?g "\<lambda>n. KO" False] example_spawn_blocked by simp
  ultimately show ?thesis using wf by (simp add: Tetromino_def)
qed

section \<open>Float arithmetic\<close>

text \<open>
  The values the drop interval takes: the literals, the conversion of the integers 0 to
  19, and the float expression evaluated at each of them, which is within \<open>2\<^sup>-\<^sup>5\<^sup>3\<close> of
  the exact value of the formula.
\<close>

lemmas round_double_eval = round_double_def round_at_def round_even_def eval_nat_numeral

lemma float_literal_one: "float_literal 1 = Finite 1"
  by (simp add: float_literal_def round_double_eval)

lemma float_literal_005: "float_literal (1 / 20) = Finite (3602879701896397 / 2 ^ 56)"
  by (simp add: float_literal_def round_double_eval)


text \<open>
  The exponent search finds the binary exponent, rounding to an integer is to a nearest
  one, and the model agrees with the float arithmetic of the interpreter on ties, on
  negative values, on the literal \<^verbatim>\<open>0.1\<close> and on the tick test
  \<^verbatim>\<open>0.75 - 0.1 >= 0.65\<close>.
\<close>

lemma exponent_up_bounds:
  "2 ^ e \<le> v \<Longrightarrow> v < 2 ^ (e + n + 1)
   \<Longrightarrow> 2 ^ exponent_up n v e \<le> v \<and> v < 2 ^ (exponent_up n v e + 1)"
proof (induction n arbitrary: e)
  case 0
  then show ?case by simp
next
  case (Suc n)
  show ?case
  proof (cases "2 ^ (e + 1) \<le> v")
    case True
    with Suc.prems Suc.IH [of "e + 1"] show ?thesis by simp
  next
    case False
    with Suc.prems show ?thesis by simp
  qed
qed

lemma exponent_down_bounds:
  "0 < k \<Longrightarrow> v * 2 ^ (k - 1) < 1
   \<Longrightarrow> v * 2 ^ (exponent_down n v k - 1) < 1
       \<and> (1 \<le> v * 2 ^ exponent_down n v k \<or> exponent_down n v k = k + n)"
proof (induction n arbitrary: k)
  case 0
  then show ?case by simp
next
  case (Suc n)
  show ?case
  proof (cases "v * 2 ^ k < 1")
    case True
    with Suc.prems Suc.IH [of "k + 1"] show ?thesis by simp
  next
    case False
    with Suc.prems show ?thesis by simp
  qed
qed

lemma round_even_nearest: "\<bar>of_int (round_even v) - v\<bar> \<le> 1 / 2"
  unfolding round_even_def by (simp add: abs_le_iff)

lemma round_double_examples:
  "round_double (2 ^ 53 + 1) = Finite (2 ^ 53)"
  "round_double (2 ^ 53 + 3) = Finite (2 ^ 53 + 4)"
  "round_double (- 5 / 2) = Finite (- 5 / 2)"
  "round_double (1 / 10) = Finite (3602879701896397 / 2 ^ 55)"
  by (simp_all add: round_double_eval)

lemma tick_example:
  "fsub (float_literal 0.75) (float_literal 0.1) = float_literal 0.65"
  "fge (fsub (float_literal 0.75) (float_literal 0.1)) (float_literal 0.65)"
  by (simp_all add: float_literal_def round_double_eval)

lemma small_int_cases:
  "0 \<le> k \<Longrightarrow> k \<le> 19 \<Longrightarrow> (k = 0 \<or> k = 1 \<or> k = 2 \<or> k = 3 \<or> k = 4 \<or> k = 5 \<or> k = 6 \<or> k = 7 \<or> k = 8 \<or> k = 9 \<or> k = 10 \<or> k = 11 \<or> k = 12 \<or> k = 13 \<or> k = 14 \<or> k = 15 \<or> k = 16 \<or> k = 17 \<or> k = 18 \<or> k = 19)" for k :: int
  by arith

lemma float_of_small_int:
  assumes "0 \<le> k" and "k \<le> 19"
  shows "float_of_int k = Inr (Finite (of_int k))"
  using small_int_cases [OF assms]
  by (elim disjE) (simp_all add: float_of_int_def round_double_eval)

lemma interval_expr_eval:
  "interval_expr (Finite 0) = Finite (1)"
  "interval_expr (Finite 1) = Finite (4278419646001971 / 2 ^ 52)"
  "interval_expr (Finite 2) = Finite (8106479329266893 / 2 ^ 53)"
  "interval_expr (Finite 3) = Finite (7656119366529843 / 2 ^ 53)"
  "interval_expr (Finite 4) = Finite (3602879701896397 / 2 ^ 52)"
  "interval_expr (Finite 5) = Finite (3 / 2 ^ 2)"
  "interval_expr (Finite 6) = Finite (3152519739159347 / 2 ^ 52)"
  "interval_expr (Finite 7) = Finite (1463669878895411 / 2 ^ 51)"
  "interval_expr (Finite 8) = Finite (5404319552844595 / 2 ^ 53)"
  "interval_expr (Finite 9) = Finite (2476979795053773 / 2 ^ 52)"
  "interval_expr (Finite 10) = Finite (1 / 2 ^ 1)"
  "interval_expr (Finite 11) = Finite (2026619832316723 / 2 ^ 52)"
  "interval_expr (Finite 12) = Finite (900719925474099 / 2 ^ 51)"
  "interval_expr (Finite 13) = Finite (3152519739159347 / 2 ^ 53)"
  "interval_expr (Finite 14) = Finite (2702159776422297 / 2 ^ 53)"
  "interval_expr (Finite 15) = Finite (1 / 2 ^ 2)"
  "interval_expr (Finite 16) = Finite (900719925474099 / 2 ^ 52)"
  "interval_expr (Finite 17) = Finite (337769972052787 / 2 ^ 51)"
  "interval_expr (Finite 18) = Finite (900719925474099 / 2 ^ 53)"
  "interval_expr (Finite 19) = Finite (3602879701896397 / 2 ^ 56)"
  by (simp_all add: interval_expr_def float_literal_one float_literal_005 py_max_def
        round_double_eval)

lemma interval_expr_near:
  assumes "0 \<le> k" and "k \<le> 19"
  shows "\<exists>v. interval_expr (Finite (of_int k)) = Finite v
            \<and> \<bar>v - max 0.05 (1 - of_int k * 0.05)\<bar> \<le> 1 / 2 ^ 53"
  using small_int_cases [OF assms]
proof (elim disjE)
  assume "k = 0"
  then show ?thesis
    by (intro exI [of _ "1"]) (simp add: interval_expr_eval)
next
  assume "k = 1"
  then show ?thesis
    by (intro exI [of _ "4278419646001971 / 2 ^ 52"]) (simp add: interval_expr_eval)
next
  assume "k = 2"
  then show ?thesis
    by (intro exI [of _ "8106479329266893 / 2 ^ 53"]) (simp add: interval_expr_eval)
next
  assume "k = 3"
  then show ?thesis
    by (intro exI [of _ "7656119366529843 / 2 ^ 53"]) (simp add: interval_expr_eval)
next
  assume "k = 4"
  then show ?thesis
    by (intro exI [of _ "3602879701896397 / 2 ^ 52"]) (simp add: interval_expr_eval)
next
  assume "k = 5"
  then show ?thesis
    by (intro exI [of _ "3 / 2 ^ 2"]) (simp add: interval_expr_eval)
next
  assume "k = 6"
  then show ?thesis
    by (intro exI [of _ "3152519739159347 / 2 ^ 52"]) (simp add: interval_expr_eval)
next
  assume "k = 7"
  then show ?thesis
    by (intro exI [of _ "1463669878895411 / 2 ^ 51"]) (simp add: interval_expr_eval)
next
  assume "k = 8"
  then show ?thesis
    by (intro exI [of _ "5404319552844595 / 2 ^ 53"]) (simp add: interval_expr_eval)
next
  assume "k = 9"
  then show ?thesis
    by (intro exI [of _ "2476979795053773 / 2 ^ 52"]) (simp add: interval_expr_eval)
next
  assume "k = 10"
  then show ?thesis
    by (intro exI [of _ "1 / 2 ^ 1"]) (simp add: interval_expr_eval)
next
  assume "k = 11"
  then show ?thesis
    by (intro exI [of _ "2026619832316723 / 2 ^ 52"]) (simp add: interval_expr_eval)
next
  assume "k = 12"
  then show ?thesis
    by (intro exI [of _ "900719925474099 / 2 ^ 51"]) (simp add: interval_expr_eval)
next
  assume "k = 13"
  then show ?thesis
    by (intro exI [of _ "3152519739159347 / 2 ^ 53"]) (simp add: interval_expr_eval)
next
  assume "k = 14"
  then show ?thesis
    by (intro exI [of _ "2702159776422297 / 2 ^ 53"]) (simp add: interval_expr_eval)
next
  assume "k = 15"
  then show ?thesis
    by (intro exI [of _ "1 / 2 ^ 2"]) (simp add: interval_expr_eval)
next
  assume "k = 16"
  then show ?thesis
    by (intro exI [of _ "900719925474099 / 2 ^ 52"]) (simp add: interval_expr_eval)
next
  assume "k = 17"
  then show ?thesis
    by (intro exI [of _ "337769972052787 / 2 ^ 51"]) (simp add: interval_expr_eval)
next
  assume "k = 18"
  then show ?thesis
    by (intro exI [of _ "900719925474099 / 2 ^ 53"]) (simp add: interval_expr_eval)
next
  assume "k = 19"
  then show ?thesis
    by (intro exI [of _ "3602879701896397 / 2 ^ 56"]) (simp add: interval_expr_eval)
qed

section \<open>Locking\<close>

lemma calculate_score_eq:
  "calculate_score g n =
     (if n = 1 then 40 else if n = 2 then 100 else if n = 3 then 300
      else if n = 4 then 1200 else 0) * (level g + 1)"
proof (cases "n < 0 \<or> 4 < n")
  case True
  then show ?thesis by (auto simp: calculate_score_def LINE_CLEAR_SCORES_def)
next
  case False
  then have "n = 0 \<or> n = 1 \<or> n = 2 \<or> n = 3 \<or> n = 4" by arith
  then show ?thesis by (auto simp: calculate_score_def LINE_CLEAR_SCORES_def)
qed

lemma spawn_new_piece_total:
  assumes "board_wf (board g)"
  shows "\<exists>g' r'. spawn_new_piece g r = Inr (g', r')
           \<and> board g' = board g \<and> score g' = score g \<and> level g' = level g
           \<and> lines_cleared g' = lines_cleared g \<and> drop_interval g' = drop_interval g
           \<and> last_drop_time g' = last_drop_time g \<and> paused g' = paused g
           \<and> theme g' = theme g
           \<and> current_piece g' =
               Some ((case next_piece g of None \<Rightarrow> Tetromino (r 0) | Some q \<Rightarrow> q)
                       \<lparr>x := 4, y := 0\<rparr>)
           \<and> (\<exists>k. next_piece g' = Some (Tetromino k))"
proof -
  let ?p = "(case next_piece g of None \<Rightarrow> Tetromino (r 0) | Some q \<Rightarrow> q)\<lparr>x := 4, y := 0\<rparr>"
  from is_valid_position_total [OF assms, of ?p 0 0]
  obtain ok where ok: "is_valid_position (board g) ?p 0 0 = Inr ok" by blast
  from spawn_new_piece_eq [of g r ok] ok show ?thesis by auto
qed

lemma new_level_range:
  "0 \<le> c \<Longrightarrow> 0 \<le> min 20 (c div 10 + 1) - 1 \<and> min 20 (c div 10 + 1) - 1 \<le> 19" for c :: int
  by (simp add: pos_imp_zdiv_nonneg_iff)

lemma lock_piece_eq:
  assumes "current_piece g = Some p" and "place_piece (board g) p = Inr b1"
    and "clear_lines b1 = (b2, n)" and "0 \<le> lines_cleared g + n"
  shows "lock_piece g r = spawn_new_piece (locked g b2 n) r"
proof -
  from new_level_range [OF assms(4)]
  have "float_of_int (min 20 ((lines_cleared g + n) div 10 + 1) - 1)
      = Inr (Finite (of_int (min 20 ((lines_cleared g + n) div 10 + 1) - 1)))"
    by (intro float_of_small_int) simp_all
  with assms(1-3) show ?thesis
    by (simp add: lock_piece_def locked_def Let_def calculate_score_eq interval_expr_def)
qed

lemma board_locked [simp]: "board (locked g b2 n) = b2"
  by (simp add: locked_def)

lemma pieces_locked [simp]:
  "current_piece (locked g b2 n) = current_piece g"
  "next_piece (locked g b2 n) = next_piece g"
  by (simp_all add: locked_def)

lemma lock_piece_total:
  assumes "board_wf (board g)" and "current_piece g = Some p" and "fits (board g) p"
    and "0 \<le> lines_cleared g"
  shows "\<exists>b1 b2 n g' r'.
           place_piece (board g) p = Inr b1 \<and> clear_lines b1 = (b2, n) \<and> 0 \<le> n
         \<and> board_wf b2 \<and> width b2 = width (board g) \<and> height b2 = height (board g)
         \<and> lock_piece g r = Inr (g', r')
         \<and> spawn_new_piece (locked g b2 n) r = Inr (g', r')"
proof -
  from place_piece_ok [OF assms(1,3)] obtain b1 where
    b1: "place_piece (board g) p = Inr b1" "board_wf b1" "width b1 = width (board g)"
        "height b1 = height (board g)"
    by blast
  from fits_width_pos [OF assms(3)] b1(3) have "0 \<le> width b1" by simp
  from clear_lines_ok [OF b1(2) this] obtain b2 n where
    b2: "clear_lines b1 = (b2, n)" "0 \<le> n" "board_wf b2" "width b2 = width b1"
        "height b2 = height b1"
    by blast
  from b2(2) assms(4) have count: "0 \<le> lines_cleared g + n" by simp
  from b2(3) have "board_wf (board (locked g b2 n))" by simp
  from spawn_new_piece_total [OF this, of r] obtain g' r' where
    "spawn_new_piece (locked g b2 n) r = Inr (g', r')" by blast
  with lock_piece_eq [OF assms(2) b1(1) b2(1) count, of r] b1 b2 show ?thesis by simp
qed

text \<open>
  Claim C2. In a game whose board is well formed, whose current piece fits the board and
  whose line count is not negative (so in every reachable game), \<^verbatim>\<open>lock_piece\<close>
  commits the piece, clears the lines and returns. With \<open>n > 0\<close> lines cleared, the line
  count grows by \<open>n\<close>, the score by 40, 100, 300 or 1200 (for 1, 2, 3, 4 lines; 0 for
  more) times the old level plus one, and the level becomes \<open>min 20 (lines div 10 + 1)\<close>
  of the new line count. The drop interval becomes the float that
  \<^verbatim>\<open>max(0.05, 1.0 - (level - 1) * 0.05)\<close> evaluates to at the new level, in binary64
  arithmetic: the integer \<^verbatim>\<open>level - 1\<close> converts exactly, the product and the
  difference are rounded, and the result is a finite float within \<open>2\<^sup>-\<^sup>5\<^sup>3\<close> of the exact
  value of the formula (at level 8 it is 0.6499999999999999). With \<open>n = 0\<close> score, level,
  line count and drop interval keep their values.
\<close>

theorem lock_piece_scoring:
  assumes "board_wf (board g)" and "current_piece g = Some p" and "fits (board g) p"
    and "0 \<le> lines_cleared g"
  shows "\<exists>b1 b2 n g' r'.
           place_piece (board g) p = Inr b1 \<and> clear_lines b1 = (b2, n) \<and> 0 \<le> n
         \<and> lock_piece g r = Inr (g', r') \<and> board g' = b2
         \<and> (0 < n \<longrightarrow>
               lines_cleared g' = lines_cleared g + n
             \<and> score g' = score g
                   + (if n = 1 then 40 else if n = 2 then 100 else if n = 3 then 300
                      else if n = 4 then 1200 else 0) * (level g + 1)
             \<and> level g' = min 20 (lines_cleared g' div 10 + 1)
             \<and> float_of_int (level g' - 1) = Inr (Finite (of_int (level g' - 1)))
             \<and> drop_interval g' =
                 py_max (float_literal 0.05)
                   (fsub (float_literal 1.0)
                      (fmul (Finite (of_int (level g' - 1))) (float_literal 0.05)))
             \<and> (\<exists>v. drop_interval g' = Finite v
                    \<and> \<bar>v - max 0.05 (1.0 - real_of_int (level g' - 1) * 0.05)\<bar>
                        \<le> 1 / 2 ^ 53))
         \<and> (n = 0 \<longrightarrow>
               score g' = score g \<and> level g' = level g
             \<and> lines_cleared g' = lines_cleared g \<and> drop_interval g' = drop_interval g)"
proof -
  from lock_piece_total [OF assms, of r] obtain b1 b2 n g' r' where
    steps: "place_piece (board g) p = Inr b1" "clear_lines b1 = (b2, n)" "0 \<le> n"
      "lock_piece g r = Inr (g', r')"
    and wf: "board_wf b2"
    and sp: "spawn_new_piece (locked g b2 n) r = Inr (g', r')"
    by blast
  from wf have "board_wf (board (locked g b2 n))" by simp
  from spawn_new_piece_total [OF this, of r] sp
  have same: "board g' = b2" "score g' = score (locked g b2 n)"
    "level g' = level (locked g b2 n)" "lines_cleared g' = lines_cleared (locked g b2 n)"
    "drop_interval g' = drop_interval (locked g b2 n)"
    by auto
  show ?thesis
  proof (cases "0 < n")
    case True
    let ?k = "min 20 ((lines_cleared g + n) div 10 + 1) - 1"
    from steps(3) assms(4) have "0 \<le> lines_cleared g + n" by simp
    from new_level_range [OF this] have range: "0 \<le> ?k" "?k \<le> 19" by simp_all
    from True same
    have fields: "lines_cleared g' = lines_cleared g + n"
      "score g' = score g
         + (if n = 1 then 40 else if n = 2 then 100 else if n = 3 then 300
            else if n = 4 then 1200 else 0) * (level g + 1)"
      "level g' = min 20 (lines_cleared g' div 10 + 1)"
      "level g' - 1 = ?k"
      "drop_interval g' = interval_expr (Finite (of_int ?k))"
      by (simp_all add: locked_def)
    from float_of_small_int [OF range] fields(4)
    have conv: "float_of_int (level g' - 1) = Inr (Finite (of_int (level g' - 1)))" by simp
    from interval_expr_near [OF range] fields(4,5)
    have near: "\<exists>v. drop_interval g' = Finite v
        \<and> \<bar>v - max 0.05 (1.0 - real_of_int (level g' - 1) * 0.05)\<bar> \<le> 1 / 2 ^ 53"
      by simp
    from fields(4,5)
    have expr: "drop_interval g' =
        py_max (float_literal 0.05)
          (fsub (float_literal 1.0) (fmul (Finite (of_int (level g' - 1))) (float_literal 0.05)))"
      by (simp add: interval_expr_def)
    from True steps same(1) fields(1-3) conv expr near show ?thesis by blast
  next
    case False
    with steps have "n = 0" by simp
    with same steps show ?thesis by (simp add: locked_def)
  qed
qed

lemma lock_example_wf: "board_wf (board lock_example)"
  by (simp add: lock_example_def board_wf_def)

lemma lock_example_frame:
  "current_frame \<lparr>type = KO, rotation = 0, x = 2, y = 1\<rparr> = [''OO'', ''OO'']"
  by (simp add: current_frame_def shape_def)

lemma lock_example_fits:
  "fits (board lock_example) \<lparr>type = KO, rotation = 0, x = 2, y = 1\<rparr>"
  by (simp add: fits_def lock_example_frame lock_example_def all_less_Suc_shift
        numeral_2_eq_2)

lemma lock_example_place:
  "place_piece (board lock_example) \<lparr>type = KO, rotation = 0, x = 2, y = 1\<rparr> =
     Inr \<lparr>width = 10, height = 3, grid = [''..........'', ''XXOOXXXXXX'', ''XXOOXXXXXX'']\<rparr>"
  by (simp add: place_piece_def get_current_shape_frame lock_example_frame lock_example_def
        getitem_def setitem_def)

lemma lock_example_clear:
  "clear_lines \<lparr>width = 10, height = 3,
                grid = [''..........'', ''XXOOXXXXXX'', ''XXOOXXXXXX'']\<rparr> =
     (\<lparr>width = 10, height = 3, grid = [''..........'', ''..........'', ''..........'']\<rparr>, 2)"
  by (simp add: clear_lines_eq numeral_2_eq_2 eval_nat_numeral)

theorem lock_piece_scoring_witness:
  "board_wf (board lock_example)
   \<and> current_piece lock_example = Some \<lparr>type = KO, rotation = 0, x = 2, y = 1\<rparr>
   \<and> fits (board lock_example) \<lparr>type = KO, rotation = 0, x = 2, y = 1\<rparr>
   \<and> 0 \<le> lines_cleared lock_example
   \<and> (\<exists>g' r'. lock_piece lock_example (\<lambda>n. KI) = Inr (g', r')
         \<and> board g' =
             \<lparr>width = 10, height = 3, grid = [''..........'', ''..........'', ''..........'']\<rparr>
         \<and> lines_cleared g' = 77 \<and> score g' = 907 \<and> level g' = 8
         \<and> drop_interval g' = Finite (1463669878895411 / 2 ^ 51))"
proof -
  have cur: "current_piece lock_example = Some \<lparr>type = KO, rotation = 0, x = 2, y = 1\<rparr>"
    and count: "0 \<le> lines_cleared lock_example"
    by (simp_all add: lock_example_def)
  from lock_piece_scoring [OF lock_example_wf cur lock_example_fits count, of "\<lambda>n. KI"]
  obtain b1 b2 n g' r' where
    b1: "place_piece (board lock_example) \<lparr>type = KO, rotation = 0, x = 2, y = 1\<rparr> = Inr b1"
    and b2: "clear_lines b1 = (b2, n)"
    and lock: "lock_piece lock_example (\<lambda>n. KI) = Inr (g', r')"
    and board: "board g' = b2"
    and pos: "0 < n \<longrightarrow>
               lines_cleared g' = lines_cleared lock_example + n
             \<and> score g' = score lock_example
                   + (if n = 1 then 40 else if n = 2 then 100 else if n = 3 then 300
                      else if n = 4 then 1200 else 0) * (level lock_example + 1)
             \<and> level g' = min 20 (lines_cleared g' div 10 + 1)
             \<and> drop_interval g' =
                 py_max (float_literal 0.05)
                   (fsub (float_literal 1.0)
                      (fmul (Finite (of_int (level g' - 1))) (float_literal 0.05)))"
    by blast
  from b1 b2 lock_example_place lock_example_clear
  have n: "n = 2"
    and b2': "b2 = \<lparr>width = 10, height = 3,
                     grid = [''..........'', ''..........'', ''..........'']\<rparr>"
    by simp_all
  from pos n have counters: "lines_cleared g' = 77 \<and> score g' = 907 \<and> level g' = 8"
    by (simp add: lock_example_def)
  with pos n have "drop_interval g' = interval_expr (Finite 7)"
    by (simp add: interval_expr_def)
  then have "drop_interval g' = Finite (1463669878895411 / 2 ^ 51)"
    by (simp add: interval_expr_eval)
  with counters lock board b2' lock_example_wf cur lock_example_fits count
  show ?thesis by blast
qed

section \<open>Reachable games\<close>

lemma SHAPES_frame_size:
  "\<forall>frame \<in> set (SHAPES k). length frame \<le> 4 \<and> (\<forall>row \<in> set frame. length row \<le> 4)"
  by (cases k) simp_all

lemma current_frame_size:
  "length (current_frame p) \<le> 4"
  "i < length (current_frame p) \<Longrightarrow> length (current_frame p ! i) \<le> 4"
proof -
  have "current_frame p \<in> set (SHAPES (type p))"
    using frame_index_in_bounds [of p] by (simp add: current_frame_def shape_def)
  with SHAPES_frame_size [of "type p"]
  have size: "length (current_frame p) \<le> 4 \<and> (\<forall>row \<in> set (current_frame p). length row \<le> 4)"
    by blast
  then show "length (current_frame p) \<le> 4" by simp
  assume "i < length (current_frame p)"
  then have "current_frame p ! i \<in> set (current_frame p)" by (rule nth_mem)
  with size show "length (current_frame p ! i) \<le> 4" by blast
qed

lemma fits_at_spawn:
  assumes "width b = 10" and "height b = 20" and "x p = 4" and "y p = 0"
  shows "fits b p"
  unfolding fits_def
proof (intro allI impI)
  fix i j
  assume i: "i < length (current_frame p)" and j: "j < length (current_frame p ! i)"
  from current_frame_size(1) [of p] i have "i < 4" by simp
  moreover from current_frame_size(2) [OF i] j have "j < 4" by simp
  ultimately show "0 \<le> x p + int j \<and> x p + int j < width b \<and> y p + int i < height b"
    using assms by simp
qed

lemma spawn_new_piece_inv:
  assumes "spawn_ready g"
  shows "\<exists>g' r' p. spawn_new_piece g r = Inr (g', r') \<and> game_inv g' \<and> score g' = score g
           \<and> current_piece g' = Some p \<and> x p = 4 \<and> y p = 0 \<and> rotation p = 0"
proof -
  let ?p = "(case next_piece g of None \<Rightarrow> Tetromino (r 0) | Some q \<Rightarrow> q)\<lparr>x := 4, y := 0\<rparr>"
  from assms have wf: "board_wf (board g)" by (simp add: spawn_ready_def)
  from spawn_new_piece_total [OF wf, of r] obtain g' r' where
    sp: "spawn_new_piece g r = Inr (g', r')" and same: "board g' = board g"
      "score g' = score g" "level g' = level g" "lines_cleared g' = lines_cleared g"
    and cur: "current_piece g' = Some ?p"
    and nxt: "\<exists>k. next_piece g' = Some (Tetromino k)"
    by blast
  from assms have "rotation ?p = 0"
    by (auto simp: spawn_ready_def Tetromino_def split: option.splits)
  moreover from assms have "fits (board g) ?p"
    by (intro fits_at_spawn) (simp_all add: spawn_ready_def)
  moreover have "x ?p = 4" "y ?p = 0" by simp_all
  moreover from assms same nxt have "spawn_ready g'" by (auto simp: spawn_ready_def)
  ultimately show ?thesis using sp same cur nxt by (auto simp: game_inv_def)
qed

lemma game_inv_ready: "game_inv g \<Longrightarrow> spawn_ready g"
  by (simp add: game_inv_def)

lemma game_inv_wf: "game_inv g \<Longrightarrow> board_wf (board g)"
  by (simp add: game_inv_def spawn_ready_def)

lemma game_inv_piece_update:
  "game_inv g \<Longrightarrow> fits (board g) q \<Longrightarrow> game_inv (g\<lparr>current_piece := Some q\<rparr>)"
  by (simp add: game_inv_def spawn_ready_def)

lemma game_inv_score_update:
  "game_inv g \<Longrightarrow> 0 \<le> s \<Longrightarrow> game_inv (g\<lparr>score := s\<rparr>)"
  by (simp add: game_inv_def spawn_ready_def)

lemma move_piece_inv:
  assumes "game_inv g"
  shows "\<exists>g' moved. move_piece g dx dy = Inr (g', moved) \<and> game_inv g' \<and> score g' = score g"
proof -
  from assms obtain p where p: "current_piece g = Some p" by (auto simp: game_inv_def)
  from is_valid_position_total [OF game_inv_wf [OF assms], of p dx dy]
  obtain ok where ok: "is_valid_position (board g) p dx dy = Inr ok" by blast
  show ?thesis
  proof (cases ok)
    case True
    with ok have "fits (board g) (p\<lparr>x := x p + dx, y := y p + dy\<rparr>)"
      using is_valid_position_fits [OF game_inv_wf [OF assms]] by simp
    with assms have "game_inv (g\<lparr>current_piece := Some (p\<lparr>x := x p + dx, y := y p + dy\<rparr>)\<rparr>)"
      by (rule game_inv_piece_update)
    with p ok True show ?thesis by (auto simp: move_piece_def)
  next
    case False
    with p ok assms show ?thesis by (auto simp: move_piece_def)
  qed
qed

lemma rotate_piece_inv:
  assumes "game_inv g"
  shows "\<exists>g' rotated. rotate_piece g = Inr (g', rotated) \<and> game_inv g' \<and> score g' = score g"
proof -
  from assms obtain p where p: "current_piece g = Some p" by (auto simp: game_inv_def)
  from is_valid_position_total [OF game_inv_wf [OF assms], of "rotate p" 0 0]
  obtain ok where ok: "is_valid_position (board g) (rotate p) 0 0 = Inr ok" by blast
  show ?thesis
  proof (cases ok)
    case True
    with ok have "is_valid_position (board g) (rotate p) 0 0 = Inr True" by simp
    then have "fits (board g) ((rotate p)\<lparr>x := x (rotate p) + 0, y := y (rotate p) + 0\<rparr>)"
      by (rule is_valid_position_fits [OF game_inv_wf [OF assms]])
    then have "fits (board g) (rotate p)" by simp
    with assms have "game_inv (g\<lparr>current_piece := Some (rotate p)\<rparr>)"
      by (rule game_inv_piece_update)
    with p ok True show ?thesis by (auto simp: rotate_piece_def)
  next
    case False
    with p ok assms show ?thesis by (auto simp: rotate_piece_def)
  qed
qed

lemma hard_drop_loop_inv:
  "game_inv g \<Longrightarrow> \<exists>g'. hard_drop_loop g = Inr g' \<and> game_inv g' \<and> score g \<le> score g'"
proof (induction g rule: hard_drop_loop.induct)
  case (1 g)
  from move_piece_inv [OF "1.prems", of 0 1] obtain g1 moved where
    mv: "move_piece g 0 1 = Inr (g1, moved)" and inv: "game_inv g1" and sc: "score g1 = score g"
    by blast
  show ?case
  proof (cases moved)
    case True
    from inv have "0 \<le> score g1" by (simp add: game_inv_def spawn_ready_def)
    then have "0 \<le> score g1 + HARD_DROP_POINTS" by (simp add: HARD_DROP_POINTS_def)
    with inv have "game_inv (g1\<lparr>score := score g1 + HARD_DROP_POINTS\<rparr>)"
      by (rule game_inv_score_update)
    from "1.IH" [OF mv refl True this] obtain g' where
      "hard_drop_loop (g1\<lparr>score := score g1 + HARD_DROP_POINTS\<rparr>) = Inr g'"
      "game_inv g'" "score g1 + HARD_DROP_POINTS \<le> score g'"
      by auto
    with mv True sc show ?thesis
      by (subst hard_drop_loop.simps) (simp add: HARD_DROP_POINTS_def)
  next
    case False
    with mv inv sc show ?thesis by (subst hard_drop_loop.simps) simp
  qed
qed

lemma locked_ready:
  assumes "game_inv g" and "board_wf b2" and "width b2 = 10" and "height b2 = 20"
    and "0 \<le> n"
  shows "spawn_ready (locked g b2 n) \<and> score g \<le> score (locked g b2 n)"
proof -
  from assms(1) have "0 \<le> level g + 1" by (simp add: game_inv_def spawn_ready_def)
  then have "0 \<le> (if n = 1 then 40 else if n = 2 then 100 else if n = 3 then 300
                    else if n = 4 then 1200 else 0) * (level g + 1)"
    by simp
  with assms show ?thesis
    by (auto simp: locked_def game_inv_def spawn_ready_def)
qed

lemma lock_piece_inv:
  assumes "game_inv g"
  shows "\<exists>g' r'. lock_piece g r = Inr (g', r') \<and> game_inv g' \<and> score g \<le> score g'"
proof -
  from assms obtain p where p: "current_piece g = Some p" "fits (board g) p"
    by (auto simp: game_inv_def)
  from assms have dims: "width (board g) = 10" "height (board g) = 20"
    by (simp_all add: game_inv_def spawn_ready_def)
  from assms have "0 \<le> lines_cleared g" by (simp add: game_inv_def spawn_ready_def)
  from lock_piece_total [OF game_inv_wf [OF assms] p this, of r] obtain b2 n g' r' where
    n: "0 \<le> n" and b2: "board_wf b2" "width b2 = width (board g)" "height b2 = height (board g)"
    and lock: "lock_piece g r = Inr (g', r')"
    and sp: "spawn_new_piece (locked g b2 n) r = Inr (g', r')"
    by blast
  from locked_ready [OF assms b2(1) _ _ n] b2 dims
  have ready: "spawn_ready (locked g b2 n)" and up: "score g \<le> score (locked g b2 n)"
    by simp_all
  from spawn_new_piece_inv [OF ready, of r] sp
  have "game_inv g'" "score g' = score (locked g b2 n)" by auto
  with lock up show ?thesis by simp
qed

lemma hard_drop_inv:
  assumes "game_inv g"
  shows "\<exists>g' r'. hard_drop g r = Inr (g', r') \<and> game_inv g' \<and> score g \<le> score g'"
proof -
  from assms obtain p where p: "current_piece g = Some p" by (auto simp: game_inv_def)
  from hard_drop_loop_inv [OF assms] obtain g1 where
    g1: "hard_drop_loop g = Inr g1" "game_inv g1" "score g \<le> score g1"
    by blast
  from lock_piece_inv [OF g1(2), of r] obtain g' r' where
    "lock_piece g1 r = Inr (g', r')" "game_inv g'" "score g1 \<le> score g'"
    by blast
  with p g1 show ?thesis by (simp add: hard_drop_def)
qed

lemma update_inv:
  assumes "game_inv g"
  shows "\<exists>g' r'. update g current_time r = Inr (g', r') \<and> game_inv g' \<and> score g \<le> score g'"
proof (cases "\<not> (paused g \<or> game_over g) \<and> fge (fsub current_time (last_drop_time g)) (drop_interval g)")
  case False
  with assms show ?thesis by (auto simp: update_def)
next
  case True
  from move_piece_inv [OF assms, of 0 1] obtain g1 moved where
    mv: "move_piece g 0 1 = Inr (g1, moved)" and inv: "game_inv g1" and sc: "score g1 = score g"
    by blast
  have time: "game_inv h \<Longrightarrow> game_inv (h\<lparr>last_drop_time := current_time\<rparr>)" for h
    by (simp add: game_inv_def spawn_ready_def)
  show ?thesis
  proof (cases moved)
    case True
    with \<open>\<not> (paused g \<or> game_over g) \<and> fge (fsub current_time (last_drop_time g)) (drop_interval g)\<close>
      mv sc time [OF inv]
    show ?thesis by (simp add: update_def)
  next
    case False
    from lock_piece_inv [OF inv, of r] obtain g2 r2 where
      "lock_piece g1 r = Inr (g2, r2)" "game_inv g2" "score g1 \<le> score g2"
      by blast
    with \<open>\<not> (paused g \<or> game_over g) \<and> fge (fsub current_time (last_drop_time g)) (drop_interval g)\<close>
      mv sc False time [of g2]
    show ?thesis by (simp add: update_def)
  qed
qed

lemma spawn_twice_inv:
  assumes "spawn_ready g"
  shows "\<exists>g' r'. spawn_twice g r = Inr (g', r') \<and> game_inv g' \<and> score g' = score g"
proof -
  from spawn_new_piece_inv [OF assms, of r] obtain g1 r1 where
    g1: "spawn_new_piece g r = Inr (g1, r1)" "game_inv g1" "score g1 = score g"
    by blast
  from spawn_new_piece_inv [OF game_inv_ready [OF g1(2)], of r1] obtain g2 r2 where
    "spawn_new_piece g1 r1 = Inr (g2, r2)" "game_inv g2" "score g2 = score g1"
    by blast
  with g1 show ?thesis by (simp add: spawn_twice_def)
qed

lemma Board_wf: "0 \<le> w \<Longrightarrow> 0 \<le> h \<Longrightarrow> board_wf (Board w h)"
  by (simp add: Board_def board_wf_def)

lemma TetrisGame_inv:
  "\<exists>g r'. TetrisGame now r = Inr (g, r') \<and> game_inv g \<and> score g = 0"
proof -
  let ?g0 = "\<lparr>board = Board 10 20, current_piece = None, next_piece = None, score = 0,
        level = 1, lines_cleared = 0, paused = False, game_over = False, theme = GREEN,
        last_drop_time = now, drop_interval = float_literal 1.0\<rparr>"
  have "spawn_ready ?g0" by (simp add: spawn_ready_def Board_wf) (simp add: Board_def)
  from spawn_twice_inv [OF this, of r] show ?thesis by (simp add: TetrisGame_def)
qed

lemma restart_inv:
  "\<exists>g' r'. restart g now r = Inr (g', r') \<and> game_inv g' \<and> score g' = 0"
proof -
  let ?g0 = "g\<lparr>board := Board 10 20, current_piece := None, next_piece := None, score := 0,
          level := 1, lines_cleared := 0, paused := False, game_over := False,
          last_drop_time := now, drop_interval := float_literal 1.0\<rparr>"
  have "spawn_ready ?g0" by (simp add: spawn_ready_def Board_wf) (simp add: Board_def)
  from spawn_twice_inv [OF this, of r] show ?thesis by (simp add: restart_def)
qed

lemma toggle_inv:
  "game_inv g \<Longrightarrow> game_inv (toggle_pause g) \<and> score (toggle_pause g) = score g"
  "game_inv g \<Longrightarrow> game_inv (toggle_theme g) \<and> score (toggle_theme g) = score g"
  by (simp_all add: toggle_pause_def toggle_theme_def game_inv_def spawn_ready_def)

lemma handle_input_inv:
  assumes "game_inv g"
  shows "\<exists>continue g' r'. handle_input g key now r = Inr (continue, g', r') \<and> game_inv g'
           \<and> (if key = ord CHR ''r'' \<or> key = ord CHR ''R'' then score g' = 0
               else score g \<le> score g')"
proof -
  from move_piece_inv [OF assms, of "- 1" 0] obtain gl ml where
    left: "move_piece g (- 1) 0 = Inr (gl, ml)" "game_inv gl" "score gl = score g" by blast
  from move_piece_inv [OF assms, of 1 0] obtain gr mr where
    right: "move_piece g 1 0 = Inr (gr, mr)" "game_inv gr" "score gr = score g" by blast
  from move_piece_inv [OF assms, of 0 1] obtain gd md where
    down: "move_piece g 0 1 = Inr (gd, md)" "game_inv gd" "score gd = score g" by blast
  from rotate_piece_inv [OF assms] obtain gu mu where
    up: "rotate_piece g = Inr (gu, mu)" "game_inv gu" "score gu = score g" by blast
  from hard_drop_inv [OF assms, of r] obtain gh rh where
    drop: "hard_drop g r = Inr (gh, rh)" "game_inv gh" "score g \<le> score gh" by blast
  from restart_inv [of g now r] obtain gn rn where
    new: "restart g now r = Inr (gn, rn)" "game_inv gn" "score gn = 0" by blast
  from down(2) have "0 \<le> score gd + 1" by (simp add: game_inv_def spawn_ready_def)
  with down(2) have soft: "game_inv (gd\<lparr>score := score gd + 1\<rparr>)"
    by (rule game_inv_score_update)
  show ?thesis
    using assms left right down up drop new soft toggle_inv [OF assms]
    by (auto simp: handle_input_def ord_def KEY_DOWN_def KEY_UP_def KEY_LEFT_def KEY_RIGHT_def)
qed

lemma perform_inv:
  assumes "game_inv g"
  shows "\<exists>g' r'. perform opn g r = Inr (g', r') \<and> game_inv g'
           \<and> (if resets opn then score g' = 0 else score g \<le> score g')"
proof (cases opn)
  case Spawn
  with spawn_new_piece_inv [OF game_inv_ready [OF assms], of r] show ?thesis by auto
next
  case (Move dx dy)
  with move_piece_inv [OF assms, of dx dy] show ?thesis by auto
next
  case Rotate
  with rotate_piece_inv [OF assms] show ?thesis by auto
next
  case HardDrop
  with hard_drop_inv [OF assms, of r] show ?thesis by simp
next
  case Lock
  with lock_piece_inv [OF assms, of r] show ?thesis by simp
next
  case (Update current_time)
  with update_inv [OF assms, of current_time r] show ?thesis by simp
next
  case TogglePause
  with toggle_inv(1) [OF assms] show ?thesis by simp
next
  case ToggleTheme
  with toggle_inv(2) [OF assms] show ?thesis by simp
next
  case (Restart now)
  with restart_inv [of g now r] show ?thesis by simp
next
  case (HandleInput key now)
  with handle_input_inv [OF assms, of key now r] show ?thesis by auto
qed

lemma reachable_inv: "reachable g \<Longrightarrow> game_inv g"
proof (induction rule: reachable.induct)
  case (construct now r g r')
  with TetrisGame_inv [of now r] show ?case by auto
next
  case (step g opn r g' r')
  with perform_inv [of g opn r] show ?case by auto
qed

lemma spawn_on_empty_board:
  "is_valid_position (Board 10 20) (Tetromino KI\<lparr>x := 4, y := 0\<rparr>) 0 0 = Inr True"
proof -
  have "get_current_shape (Tetromino KI\<lparr>x := 4, y := 0\<rparr>)
      = Inr [''....'', ''IIII'', ''....'', ''....'']"
    by (simp add: get_current_shape_eq shape_def Tetromino_def)
  then show ?thesis
    by (simp add: is_valid_position_def blocked_def getitem_def Board_def Tetromino_def)
qed

lemma fresh_game_constructed: "TetrisGame (Finite 0) (\<lambda>n. KI) = Inr (fresh_game, \<lambda>n. KI)"
proof -
  let ?g0 = "\<lparr>board = Board 10 20, current_piece = None, next_piece = None, score = 0,
        level = 1, lines_cleared = 0, paused = False, game_over = False, theme = GREEN,
        last_drop_time = Finite 0, drop_interval = Finite 1\<rparr>"
  let ?g1 = "?g0\<lparr>current_piece := Some (Tetromino KI), next_piece := Some (Tetromino KI)\<rparr>"
  have one: "spawn_new_piece ?g0 (\<lambda>n. KI) = Inr (?g1, \<lambda>n. KI)"
    using spawn_new_piece_eq [of ?g0 "\<lambda>n. KI" True] spawn_on_empty_board
    by (simp add: Tetromino_def)
  have two: "spawn_new_piece ?g1 (\<lambda>n. KI) = Inr (fresh_game, \<lambda>n. KI)"
    using spawn_new_piece_eq [of ?g1 "\<lambda>n. KI" True] spawn_on_empty_board
    by (simp add: Tetromino_def fresh_game_def)
  from one two show ?thesis by (simp add: TetrisGame_def spawn_twice_def float_literal_one)
qed

lemma fresh_game_reachable: "reachable fresh_game"
  using fresh_game_constructed by (rule reachable.construct)

lemma moved_game_reachable: "reachable moved_game"
proof -
  have "get_current_shape (Tetromino KI) = Inr [''....'', ''IIII'', ''....'', ''....'']"
    by (simp add: get_current_shape_eq shape_def Tetromino_def)
  then have "is_valid_position (Board 10 20) (Tetromino KI) 1 0 = Inr True"
    by (simp add: is_valid_position_def blocked_def getitem_def Board_def Tetromino_def)
  then have "move_piece fresh_game 1 0 = Inr (moved_game, True)"
    by (simp add: move_piece_def fresh_game_def moved_game_def Tetromino_def)
  then have "perform (Move 1 0) fresh_game (\<lambda>n. KI) = Inr (moved_game, \<lambda>n. KI)"
    by simp
  with fresh_game_reachable show ?thesis by (rule reachable.step)
qed

lemma initial_spawn_ready:
  "spawn_ready
     (g\<lparr>board := Board 10 20, current_piece := None, next_piece := None, score := 0,
        level := 1, lines_cleared := 0\<rparr>)"
  by (simp add: spawn_ready_def Board_wf) (simp add: Board_def)

text \<open>
  Claim C7. A call of \<^verbatim>\<open>spawn_new_piece\<close> returns, and the current piece is then the
  incoming piece (the old next piece, or a fresh one when there was none) with its
  position set to column 4, row 0; its rotation index is 0. This holds in every
  reachable game; in every \<open>spawn_ready\<close> state, which are the states at which
  \<^verbatim>\<open>__init__\<close>, \<^verbatim>\<open>restart\<close> (\<open>initial_spawn_ready\<close>) and \<^verbatim>\<open>lock_piece\<close>
  (\<open>locked_ready\<close>) make the call; and in every game with a well-formed board whose
  next piece, wherever it lies, has rotation index 0.
\<close>

theorem spawn_position:
  assumes "reachable g \<or> spawn_ready g
           \<or> (board_wf (board g) \<and> (\<forall>q. next_piece g = Some q \<longrightarrow> rotation q = 0))"
  shows "\<exists>g' r' p. spawn_new_piece g r = Inr (g', r')
           \<and> p = (case next_piece g of None \<Rightarrow> Tetromino (r 0) | Some q \<Rightarrow> q)
                   \<lparr>x := 4, y := 0\<rparr>
           \<and> current_piece g' = Some p \<and> x p = 4 \<and> y p = 0 \<and> rotation p = 0"
proof -
  let ?p = "(case next_piece g of None \<Rightarrow> Tetromino (r 0) | Some q \<Rightarrow> q)\<lparr>x := 4, y := 0\<rparr>"
  have ready: "board_wf (board h) \<and> (\<forall>q. next_piece h = Some q \<longrightarrow> rotation q = 0)"
    if "spawn_ready h" for h
    using that by (auto simp: spawn_ready_def Tetromino_def)
  from assms have general: "board_wf (board g) \<and> (\<forall>q. next_piece g = Some q \<longrightarrow> rotation q = 0)"
    using ready [of g] game_inv_ready [OF reachable_inv, of g] by blast
  then have "rotation ?p = 0"
    by (cases "next_piece g") (simp_all add: Tetromino_def)
  moreover from general spawn_new_piece_total [of g r] obtain g' r' where
    "spawn_new_piece g r = Inr (g', r')" "current_piece g' = Some ?p"
    by blast
  ultimately show ?thesis by simp
qed

theorem spawn_position_witness:
  "reachable moved_game
   \<and> current_piece moved_game = Some \<lparr>type = KI, rotation = 0, x = 5, y = 0\<rparr>
   \<and> (\<exists>g' r'. spawn_new_piece moved_game (\<lambda>n. KO) = Inr (g', r')
         \<and> current_piece g' = Some \<lparr>type = KI, rotation = 0, x = 4, y = 0\<rparr>)
   \<and> board_wf (board displaced_game)
   \<and> next_piece displaced_game = Some \<lparr>type = KT, rotation = 0, x = 7, y = 5\<rparr>
   \<and> (\<exists>g' r'. spawn_new_piece displaced_game (\<lambda>n. KO) = Inr (g', r')
         \<and> current_piece g' = Some \<lparr>type = KT, rotation = 0, x = 4, y = 0\<rparr>)"
proof -
  have moved: "current_piece moved_game = Some \<lparr>type = KI, rotation = 0, x = 5, y = 0\<rparr>"
    "next_piece moved_game = Some \<lparr>type = KI, rotation = 0, x = 4, y = 0\<rparr>"
    by (simp_all add: moved_game_def fresh_game_def Tetromino_def)
  have displaced: "board_wf (board displaced_game)"
    "next_piece displaced_game = Some \<lparr>type = KT, rotation = 0, x = 7, y = 5\<rparr>"
    by (simp_all add: displaced_game_def fresh_game_def Board_wf)
  from spawn_position [of moved_game "\<lambda>n. KO"] moved_game_reachable moved(2)
  have one: "\<exists>g' r'. spawn_new_piece moved_game (\<lambda>n. KO) = Inr (g', r')
         \<and> current_piece g' = Some \<lparr>type = KI, rotation = 0, x = 4, y = 0\<rparr>"
    by simp
  from spawn_position [of displaced_game "\<lambda>n. KO"] displaced
  have two: "\<exists>g' r'. spawn_new_piece displaced_game (\<lambda>n. KO) = Inr (g', r')
         \<and> current_piece g' = Some \<lparr>type = KT, rotation = 0, x = 4, y = 0\<rparr>"
    by simp
  from moved_game_reachable moved(1) one displaced two show ?thesis by blast
qed

text \<open>
  Claim C9. In every reachable game the score is at least 0. Each operation of the
  engine returns there; moving, rotating, the hard drop, locking, the tick, spawning and
  the two toggles leave a score at least the old one, and \<^verbatim>\<open>restart\<close> leaves the
  score 0.
\<close>

theorem score_monotone:
  assumes "reachable g"
  shows "0 \<le> score g
       \<and> (\<exists>g' moved. move_piece g dx dy = Inr (g', moved) \<and> score g \<le> score g')
       \<and> (\<exists>g' rotated. rotate_piece g = Inr (g', rotated) \<and> score g \<le> score g')
       \<and> (\<exists>g' r'. hard_drop g r = Inr (g', r') \<and> score g \<le> score g')
       \<and> (\<exists>g' r'. lock_piece g r = Inr (g', r') \<and> score g \<le> score g')
       \<and> (\<exists>g' r'. update g current_time r = Inr (g', r') \<and> score g \<le> score g')
       \<and> (\<exists>g' r'. spawn_new_piece g r = Inr (g', r') \<and> score g \<le> score g')
       \<and> score g \<le> score (toggle_pause g)
       \<and> score g \<le> score (toggle_theme g)
       \<and> (\<exists>g' r'. restart g now r = Inr (g', r') \<and> score g' = 0)"
proof -
  note inv = reachable_inv [OF assms]
  from inv have "0 \<le> score g" by (simp add: game_inv_def spawn_ready_def)
  moreover from move_piece_inv [OF inv, of dx dy]
  have "\<exists>g' moved. move_piece g dx dy = Inr (g', moved) \<and> score g \<le> score g'" by auto
  moreover from rotate_piece_inv [OF inv]
  have "\<exists>g' rotated. rotate_piece g = Inr (g', rotated) \<and> score g \<le> score g'" by auto
  moreover from hard_drop_inv [OF inv, of r]
  have "\<exists>g' r'. hard_drop g r = Inr (g', r') \<and> score g \<le> score g'" by blast
  moreover from lock_piece_inv [OF inv, of r]
  have "\<exists>g' r'. lock_piece g r = Inr (g', r') \<and> score g \<le> score g'" by blast
  moreover from update_inv [OF inv, of current_time r]
  have "\<exists>g' r'. update g current_time r = Inr (g', r') \<and> score g \<le> score g'" by blast
  moreover from spawn_new_piece_inv [OF game_inv_ready [OF inv], of r]
  have "\<exists>g' r'. spawn_new_piece g r = Inr (g', r') \<and> score g \<le> score g'" by auto
  moreover from toggle_inv [OF inv]
  have "score g \<le> score (toggle_pause g)" "score g \<le> score (toggle_theme g)" by simp_all
  moreover from restart_inv [of g now r]
  have "\<exists>g' r'. restart g now r = Inr (g', r') \<and> score g' = 0" by blast
  ultimately show ?thesis by blast
qed

theorem score_monotone_witness:
  "reachable fresh_game
   \<and> score fresh_game = 0
   \<and> (\<exists>g' r'. hard_drop fresh_game (\<lambda>n. KO) = Inr (g', r') \<and> 0 \<le> score g')
   \<and> (\<exists>g' r'. lock_piece fresh_game (\<lambda>n. KO) = Inr (g', r') \<and> 0 \<le> score g')
   \<and> (\<exists>g' r'. update fresh_game (Finite 5) (\<lambda>n. KO) = Inr (g', r') \<and> 0 \<le> score g')
   \<and> (\<exists>g' r'. restart fresh_game (Finite 9) (\<lambda>n. KO) = Inr (g', r') \<and> score g' = 0)"
proof -
  have "score fresh_game = 0" by (simp add: fresh_game_def)
  with score_monotone [OF fresh_game_reachable, of 0 1 "\<lambda>n. KO" "Finite 5" "Finite 9"]
    fresh_game_reachable
  show ?thesis by simp
qed

end
